theory Spec2Isabelle
  imports Complex_Main "HOL-Library.Multiset"
begin

section \<open>Offline onset detection: Results/analyze\_latency.py\<close>

text \<open>
  Python floats are modelled as real numbers: rounding error of the float arithmetic is
  not part of the model. The values a CSV cell can hold that are no real number (an empty
  cell read as NaN, an infinity) are kept apart in \<open>xfloat\<close>. The numeric command-line
  options are finite reals; \<open>min_frames\<close> and the sample rate are Python ints.
\<close>

datatype py_error = ValueError | ZeroDivisionError | KeyError | TypeError | OverflowError

text \<open>Python 3 \<^verbatim>\<open>round(x)\<close> on a float: to the nearest integer, a tie to the even one.\<close>

definition py_round :: "real \<Rightarrow> int" where
  "py_round x =
     (let f = \<lfloor>x\<rfloor>; r = x - of_int f
      in if r < 1 / 2 then f
         else if 1 / 2 < r then f + 1
         else if even f then f else f + 1)"

text \<open>Python \<^verbatim>\<open>xs[start:stop]\<close>: a negative bound counts from the end, both are clamped.\<close>

definition py_slice :: "'a list \<Rightarrow> int \<Rightarrow> int \<Rightarrow> 'a list" where
  "py_slice xs start stop =
     (let n = int (length xs);
          lo = (if start < 0 then max 0 (n + start) else min start n);
          hi = (if stop < 0 then max 0 (n + stop) else min stop n)
      in take (nat (hi - lo)) (drop (nat lo) xs))"

subsection \<open>rolling\_energy\_db\<close>

text \<open>
  \<^verbatim>\<open>np.convolve(a, v, mode="valid")\<close>: the longer argument is slid over the shorter one
  (the arguments are swapped when \<open>v\<close> is the longer), and an empty argument raises
  ValueError.
\<close>

definition convolve_valid :: "real list \<Rightarrow> real list \<Rightarrow> py_error + real list" where
  "convolve_valid a v =
     (if a = [] \<or> v = [] then Inl ValueError
      else let l = (if length v \<le> length a then a else v);
               s = (if length v \<le> length a then v else a)
           in Inr (map (\<lambda>k. \<Sum>j\<leftarrow>[0..<length s]. l ! (k + j) * s ! (length s - 1 - j))
                       [0..<length l - length s + 1]))"

definition energy_to_db :: "real \<Rightarrow> real" where
  "energy_to_db e = 10 * log 10 (max e (1 / 10 ^ 12))"

definition rolling_energy_db :: "real list \<Rightarrow> int \<Rightarrow> real \<Rightarrow> py_error + real list \<times> int" where
  "rolling_energy_db signal sample_rate frame_ms =
     (let frame_length = max 1 (py_round (of_int sample_rate * frame_ms / 1000));
          window = replicate (nat frame_length) (1 / of_int frame_length)
      in case convolve_valid (map (\<lambda>x. x * x) signal) window of
           Inl e \<Rightarrow> Inl e
         | Inr energy \<Rightarrow> Inr (map energy_to_db energy, frame_length))"

subsection \<open>detect\_onset\_after\<close>

definition start_index :: "real list \<Rightarrow> int \<Rightarrow> real \<Rightarrow> nat" where
  "start_index energy_db sample_rate start_ms =
     (let start_sample = py_round (start_ms / 1000 * of_int sample_rate)
      in nat (min (int (length energy_db)) (max 0 start_sample)))"

text \<open>
  The \<^verbatim>\<open>for i in range(len(above))\<close> loop, from index \<open>i\<close> on: a frame at or below the
  threshold is skipped, a run that no longer fits ends the search, and the first index
  whose slice \<^verbatim>\<open>above[i : i + min_frames]\<close> is all true is the result
  (\<open>abv\<close> is the source's array \<^verbatim>\<open>above\<close>).
\<close>

function scan_above :: "bool list \<Rightarrow> int \<Rightarrow> nat \<Rightarrow> nat option" where
  "scan_above abv min_frames i =
     (if length abv \<le> i then None
      else if \<not> abv ! i then scan_above abv min_frames (Suc i)
      else if int (length abv) < int i + min_frames then None
      else if list_all (\<lambda>b. b) (py_slice abv (int i) (int i + min_frames)) then Some i
      else scan_above abv min_frames (Suc i))"
  by pat_completeness auto
termination
  by (relation "measure (\<lambda>(abv, min_frames, i). length abv - i)") auto

declare scan_above.simps [simp del]

definition detect_onset_after ::
  "real list \<Rightarrow> int \<Rightarrow> int \<Rightarrow> real \<Rightarrow> real \<Rightarrow> int \<Rightarrow> py_error + real option" where
  "detect_onset_after energy_db sample_rate frame_length start_ms threshold_db min_frames =
     (let start_idx = start_index energy_db sample_rate start_ms;
          abv = map (\<lambda>e. threshold_db < e) (drop start_idx energy_db)
      in case scan_above abv min_frames 0 of
           None \<Rightarrow> Inr None
         | Some i \<Rightarrow>
             if sample_rate = 0 then Inl ZeroDivisionError
             else Inr (Some ((real (start_idx + i) + of_int frame_length / 2)
                             / of_int sample_rate * 1000)))"

text \<open>
  The property the specification states for the scan, in its own words: \<open>m\<close> consecutive
  frames from index \<open>i\<close> on fit within the energy array and all strictly exceed the
  threshold.
\<close>

definition run_above :: "real list \<Rightarrow> real \<Rightarrow> nat \<Rightarrow> nat \<Rightarrow> bool" where
  "run_above energy_db threshold_db m i \<longleftrightarrow>
     i + m \<le> length energy_db \<and> list_all (\<lambda>e. threshold_db < e) (take m (drop i energy_db))"

definition frame_center_ms :: "nat \<Rightarrow> int \<Rightarrow> int \<Rightarrow> real" where
  "frame_center_ms i frame_length sample_rate =
     (real i + of_int frame_length / 2) / of_int sample_rate * 1000"

text \<open>The same property on the boolean array \<^verbatim>\<open>above\<close> the loop works on.\<close>

definition bool_run :: "bool list \<Rightarrow> nat \<Rightarrow> nat \<Rightarrow> bool" where
  "bool_run abv m k \<longleftrightarrow> k + m \<le> length abv \<and> list_all (\<lambda>b. b) (take m (drop k abv))"

subsection \<open>analyze: one row of the results table\<close>

text \<open>
  A CSV cell, and a value of the result dict. A number is a float that is finite, NaN (an
  empty cell), or an infinity.
\<close>

datatype xfloat = Fin real | NaN | PosInf | NegInf

datatype cell = CNone | CFloat xfloat | CStr string | CBool bool

text \<open>A row of the table and a result record are dicts from column names to values.\<close>

type_synonym row = "string \<Rightarrow> cell option"

text \<open>
  What \<^verbatim>\<open>sf.read(path, always_2d=False)\<close> returns: a one-dimensional array for a mono
  file, otherwise one list of channel samples per frame.
\<close>

datatype audio = Mono "real list" | Multi "real list list"

text \<open>
  The world outside the analysis: which path \<^verbatim>\<open>build_wav_path\<close> forms for a row (its
  string formatting is not modelled; no property below depends on the file name), whether
  a path is a file, what reading it gives (\<open>Inl\<close> the message of the exception raised),
  and how \<^verbatim>\<open>float\<close> reads a text cell (\<open>None\<close>: it raises ValueError).
\<close>

record env =
  build_wav_path :: "row \<Rightarrow> string"
  isfile :: "string \<Rightarrow> bool"
  sf_read :: "string \<Rightarrow> string + audio \<times> int"
  str_to_float :: "string \<Rightarrow> xfloat option"

fun to_mono :: "audio \<Rightarrow> real list" where
  "to_mono (Mono xs) = xs"
| "to_mono (Multi frames) = map (\<lambda>f. sum_list f / real (length f)) frames"

text \<open>\<^verbatim>\<open>row.get(key, default)\<close> and \<^verbatim>\<open>float(...)\<close> of the cell.\<close>

definition row_get :: "row \<Rightarrow> string \<Rightarrow> cell \<Rightarrow> cell" where
  "row_get row key dflt = (case row key of None \<Rightarrow> dflt | Some v \<Rightarrow> v)"

fun py_float :: "(string \<Rightarrow> xfloat option) \<Rightarrow> cell \<Rightarrow> py_error + xfloat" where
  "py_float parse (CFloat v) = Inr v"
| "py_float parse (CBool b) = Inr (Fin (if b then 1 else 0))"
| "py_float parse (CStr s) = (case parse s of None \<Rightarrow> Inl ValueError | Some v \<Rightarrow> Inr v)"
| "py_float parse CNone = Inl TypeError"

text \<open>Float subtraction with NaN and the infinities.\<close>

fun xsub :: "xfloat \<Rightarrow> xfloat \<Rightarrow> xfloat" where
  "xsub (Fin a) (Fin b) = Fin (a - b)"
| "xsub NaN y = NaN"
| "xsub x NaN = NaN"
| "xsub PosInf PosInf = NaN"
| "xsub NegInf NegInf = NaN"
| "xsub PosInf y = PosInf"
| "xsub NegInf y = NegInf"
| "xsub (Fin a) PosInf = NegInf"
| "xsub (Fin a) NegInf = PosInf"

text \<open>
  Python \<^verbatim>\<open>max(0.0, d)\<close> is \<open>d\<close> when \<open>d > 0.0\<close> and \<open>0.0\<close> otherwise, also for NaN.
  \<open>None\<close> stands for the result \<open>+inf\<close>.
\<close>

fun max_zero :: "xfloat \<Rightarrow> real option" where
  "max_zero (Fin d) = Some (if 0 < d then d else 0)"
| "max_zero PosInf = None"
| "max_zero NaN = Some 0"
| "max_zero NegInf = Some 0"

text \<open>
  \<^verbatim>\<open>np.percentile(a, q)\<close> (linear interpolation between the two nearest ranks) and
  \<^verbatim>\<open>np.median(a)\<close>, on a non-empty array.
\<close>

definition percentile :: "real list \<Rightarrow> real \<Rightarrow> real" where
  "percentile xs q =
     (let srt = sort xs; n = length xs;
          h = q / 100 * real (n - 1);
          lo = nat \<lfloor>h\<rfloor>;
          hi = min (lo + 1) (n - 1)
      in srt ! lo + (h - real lo) * (srt ! hi - srt ! lo))"

definition median_db :: "real list \<Rightarrow> real" where
  "median_db xs =
     (let srt = sort xs; n = length xs
      in if even n then (srt ! (n div 2 - 1) + srt ! (n div 2)) / 2 else srt ! (n div 2))"

text \<open>\<^verbatim>\<open>energy_db[: int(max(1, playback_end_rel / 1000.0 * sample_rate))]\<close>\<close>

definition pre_region :: "real list \<Rightarrow> int \<Rightarrow> real \<Rightarrow> real list" where
  "pre_region energy_db sample_rate playback_end_rel =
     (let x = playback_end_rel / 1000 * of_int sample_rate
      in take (if 1 < x then nat \<lfloor>x\<rfloor> else 1) energy_db)"

text \<open>
  Lines 206 to 237 of \<^verbatim>\<open>analyze\<close>: the primary detection from the guarded start and the
  fallback pass. The result is the onset, \<^verbatim>\<open>fallback_used\<close> and \<^verbatim>\<open>dynamic_threshold\<close>.
\<close>

definition analyze_detect ::
  "real list \<Rightarrow> int \<Rightarrow> int \<Rightarrow> real \<Rightarrow> real \<Rightarrow> int \<Rightarrow> real \<Rightarrow> py_error + real option \<times> bool \<times> real" where
  "analyze_detect energy_db sample_rate frame_length playback_end_rel threshold_db min_frames guard_ms =
     (let start_ms = playback_end_rel + guard_ms
      in case detect_onset_after energy_db sample_rate frame_length start_ms threshold_db min_frames of
           Inl e \<Rightarrow> Inl e
         | Inr onset_ms \<Rightarrow>
             let pre = pre_region energy_db sample_rate playback_end_rel
             in if onset_ms = None \<and> pre \<noteq> [] then
                  let noise_db = percentile pre 75;
                      dynamic_threshold = max (threshold_db - 5) (noise_db + 6)
                  in case detect_onset_after energy_db sample_rate frame_length start_ms
                            dynamic_threshold min_frames of
                       Inl e \<Rightarrow> Inl e
                     | Inr onset_ms2 \<Rightarrow> Inr (onset_ms2, True, dynamic_threshold)
                else Inr (onset_ms, False, threshold_db))"

text \<open>
  The two notions the specification uses for the noise floor, in its own words and
  independent of the code above. The pre-playback-end region: the first energy frame and
  every frame whose sample lies wholly before the end of playback (sample \<open>i\<close> ends at
  \<open>i + 1\<close>). A value at the \<open>q\<close>-th percentile of the values \<open>xs\<close>, by rank: more than
  \<open>q\<close> percent of the \<open>n - 1\<close> steps between the ranks lie at or below it, and at
  least \<open>100 - q\<close> percent of them at or above it.
\<close>

definition frames_before_playback_end :: "real list \<Rightarrow> int \<Rightarrow> real \<Rightarrow> real list" where
  "frames_before_playback_end energy_db sample_rate playback_end_rel =
     map (\<lambda>i. energy_db ! i)
       (filter (\<lambda>i. i = 0 \<or> real (Suc i) \<le> playback_end_rel / 1000 * of_int sample_rate)
          [0..<length energy_db])"

definition at_rank :: "real list \<Rightarrow> real \<Rightarrow> real \<Rightarrow> bool" where
  "at_rank xs q v \<longleftrightarrow>
       q / 100 * (real (length xs) - 1) < real (length (filter (\<lambda>x. x \<le> v) xs))
     \<and> (1 - q / 100) * (real (length xs) - 1) \<le> real (length (filter (\<lambda>x. v \<le> x) xs))"

text \<open>The result dict as first filled in: the row's own fields, updated with the added keys.\<close>

definition initial_result :: "row \<Rightarrow> string \<Rightarrow> row" where
  "initial_result row wav_path =
     row(''audio_path'' \<mapsto> CStr wav_path,
         ''playback_end_ms_rel'' \<mapsto> CNone,
         ''latency_ms_from_playback_end'' \<mapsto> CNone,
         ''onset_ms_from_recording_start'' \<mapsto> CNone,
         ''max_energy_db'' \<mapsto> CNone,
         ''median_energy_db'' \<mapsto> CNone,
         ''status'' \<mapsto> CStr ''ok'',
         ''note'' \<mapsto> CStr [])"

text \<open>Lines 205 and 239 to 250: the detection outputs written into the result.\<close>

definition finish_result ::
  "row \<Rightarrow> real list \<Rightarrow> real \<Rightarrow> real option \<Rightarrow> bool \<Rightarrow> real \<Rightarrow> row" where
  "finish_result result energy_db playback_end_rel onset_ms fallback_used dynamic_threshold =
     (let r = result(''playback_end_ms_rel'' \<mapsto> CFloat (Fin playback_end_rel),
                     ''max_energy_db'' \<mapsto>
                        CFloat (if energy_db \<noteq> [] then Fin (Max (set energy_db)) else NegInf),
                     ''median_energy_db'' \<mapsto>
                        CFloat (if energy_db \<noteq> [] then Fin (median_db energy_db) else NegInf),
                     ''dynamic_threshold_db'' \<mapsto> CFloat (Fin dynamic_threshold),
                     ''fallback_used'' \<mapsto> CBool fallback_used)
      in case onset_ms of
           None \<Rightarrow> r(''status'' \<mapsto> CStr ''no_speech_detected'',
                      ''note'' \<mapsto> CStr ''No onset above threshold after playback end'')
         | Some t \<Rightarrow> r(''onset_ms_from_recording_start'' \<mapsto> CFloat (Fin t),
                        ''latency_ms_from_playback_end'' \<mapsto> CFloat (Fin (t - playback_end_rel)),
                        ''note'' \<mapsto> CStr []))"

text \<open>
  Lines 197 to 250, for a recording that was read. An infinite \<^verbatim>\<open>playback_end_rel\<close> makes
  \<^verbatim>\<open>int(round(...))\<close> in \<^verbatim>\<open>detect_onset_after\<close> raise (OverflowError, or ValueError when
  the product with a zero sample rate is NaN). The QC plot is a side effect inside a
  \<^verbatim>\<open>try\<close> whose handler only prints, so it is left out.
\<close>

definition analyze_audio ::
  "env \<Rightarrow> real \<Rightarrow> real \<Rightarrow> int \<Rightarrow> real \<Rightarrow> row \<Rightarrow> row \<Rightarrow> real list \<Rightarrow> int \<Rightarrow> py_error + row" where
  "analyze_audio ev threshold_db frame_ms min_frames guard_ms row result signal sample_rate =
     (case rolling_energy_db signal sample_rate frame_ms of
        Inl e \<Rightarrow> Inl e
      | Inr (energy_db, frame_length) \<Rightarrow>
     (case py_float (str_to_float ev) (row_get row ''playback_end_ms'' (CFloat (Fin 0))) of
        Inl e \<Rightarrow> Inl e
      | Inr playback_end_abs \<Rightarrow>
     (case py_float (str_to_float ev) (row_get row ''recording_start_ms'' (CFloat (Fin 0))) of
        Inl e \<Rightarrow> Inl e
      | Inr rec_start_abs \<Rightarrow>
     (case max_zero (xsub playback_end_abs rec_start_abs) of
        None \<Rightarrow> Inl (if sample_rate = 0 then ValueError else OverflowError)
      | Some playback_end_rel \<Rightarrow>
     (case analyze_detect energy_db sample_rate frame_length playback_end_rel
             threshold_db min_frames guard_ms of
        Inl e \<Rightarrow> Inl e
      | Inr (onset_ms, fallback_used, dynamic_threshold) \<Rightarrow>
          Inr (finish_result result energy_db playback_end_rel onset_ms fallback_used
                 dynamic_threshold))))))"

text \<open>The body of the \<^verbatim>\<open>for _, row in df.iterrows()\<close> loop: the record appended for a row.\<close>

definition analyze_row ::
  "env \<Rightarrow> real \<Rightarrow> real \<Rightarrow> int \<Rightarrow> real \<Rightarrow> row \<Rightarrow> py_error + row" where
  "analyze_row ev threshold_db frame_ms min_frames guard_ms row =
     (let wav_path = build_wav_path ev row;
          result = initial_result row wav_path
      in if \<not> isfile ev wav_path then
           Inr (result(''status'' \<mapsto> CStr ''missing'', ''note'' \<mapsto> CStr ''WAV not found''))
         else case sf_read ev wav_path of
                Inl err \<Rightarrow>
                  Inr (result(''status'' \<mapsto> CStr ''read_error'',
                              ''note'' \<mapsto> CStr (''read error: '' @ err)))
              | Inr (signal, sample_rate) \<Rightarrow>
                  analyze_audio ev threshold_db frame_ms min_frames guard_ms row result
                    (to_mono signal) sample_rate)"

subsection \<open>analyze: the whole table\<close>

text \<open>The loop over the rows: an exception in one row ends the whole call.\<close>

fun analyze_rows ::
  "env \<Rightarrow> real \<Rightarrow> real \<Rightarrow> int \<Rightarrow> real \<Rightarrow> row list \<Rightarrow> py_error + row list" where
  "analyze_rows ev threshold_db frame_ms min_frames guard_ms [] = Inr []"
| "analyze_rows ev threshold_db frame_ms min_frames guard_ms (row # rows) =
     (case analyze_row ev threshold_db frame_ms min_frames guard_ms row of
        Inl e \<Rightarrow> Inl e
      | Inr result \<Rightarrow>
          (case analyze_rows ev threshold_db frame_ms min_frames guard_ms rows of
             Inl e \<Rightarrow> Inl e
           | Inr records \<Rightarrow> Inr (result # records)))"

text \<open>
  \<^verbatim>\<open>analyze\<close> returns the data frame built from the records, one row per record in the
  order of the list. With no record the frame has no column, and the summary's
  \<^verbatim>\<open>out_df['latency_ms_from_playback_end']\<close> raises KeyError.
\<close>

definition analyze ::
  "env \<Rightarrow> real \<Rightarrow> real \<Rightarrow> int \<Rightarrow> real \<Rightarrow> row list \<Rightarrow> py_error + row list" where
  "analyze ev threshold_db frame_ms min_frames guard_ms df =
     (case analyze_rows ev threshold_db frame_ms min_frames guard_ms df of
        Inl e \<Rightarrow> Inl e
      | Inr records \<Rightarrow> if records = [] then Inl KeyError else Inr records)"

subsection \<open>Example inputs for the analysis\<close>

text \<open>
  A small world for concrete runs: a row names its recording in \<^verbatim>\<open>recording_file\<close>, and
  \<open>files\<close> says what is stored under each name (nothing, an unreadable file, or audio
  with its sample rate).
\<close>

definition example_env :: "(string \<Rightarrow> (string + audio \<times> int) option) \<Rightarrow> env" where
  "example_env files =
     \<lparr>build_wav_path =
        (\<lambda>row. case row ''recording_file'' of Some (CStr s) \<Rightarrow> s | _ \<Rightarrow> ''_trial__.wav''),
      isfile = (\<lambda>p. files p \<noteq> None),
      sf_read = (\<lambda>p. case files p of Some r \<Rightarrow> r | None \<Rightarrow> Inl ''cannot open''),
      str_to_float = (\<lambda>s. None)\<rparr>"

text \<open>One silent sample followed by four samples of full amplitude, at 1000 Hz.\<close>

definition speech_files :: "string \<Rightarrow> (string + audio \<times> int) option" where
  "speech_files = [''a.wav'' \<mapsto> Inr (Mono [0, 1, 1, 1, 1], 1000)]"

definition speech_row :: row where
  "speech_row = [''recording_file'' \<mapsto> CStr ''a.wav'']"

text \<open>Four samples of exact silence, at 1000 Hz.\<close>

definition silent_files :: "string \<Rightarrow> (string + audio \<times> int) option" where
  "silent_files = [''s.wav'' \<mapsto> Inr (Mono [0, 0, 0, 0], 1000)]"

definition silent_row :: row where
  "silent_row = [''recording_file'' \<mapsto> CStr ''s.wav'']"

text \<open>
  A recording at 1000 Hz whose first four samples (the stimulus leaking into the
  microphone, at -20, -80, -60 and -100 dB) precede the end of playback at 4 ms, followed
  by four samples of quiet speech at -40 dB.
\<close>

definition leak_files :: "string \<Rightarrow> (string + audio \<times> int) option" where
  "leak_files =
     [''l.wav'' \<mapsto> Inr (Mono [1 / 10, 1 / 10000, 1 / 1000, 1 / 100000,
                              1 / 100, 1 / 100, 1 / 100, 1 / 100], 1000)]"

definition leak_row :: row where
  "leak_row = [''recording_file'' \<mapsto> CStr ''l.wav'', ''playback_end_ms'' \<mapsto> CFloat (Fin 4)]"

text \<open>The keys \<^verbatim>\<open>analyze\<close> writes into a result record.\<close>

definition detection_fields :: "string list" where
  "detection_fields =
     [''audio_path'', ''playback_end_ms_rel'', ''latency_ms_from_playback_end'',
      ''onset_ms_from_recording_start'', ''max_energy_db'', ''median_energy_db'',
      ''status'', ''note'', ''dynamic_threshold_db'', ''fallback_used'']"

text \<open>
  A table of three trials: the recording of the first is missing, that of the second is
  not a readable audio file, the third is the example recording. \<open>noted_row\<close> is a row of
  a table that has a column named \<^verbatim>\<open>note\<close>.
\<close>

definition mixed_files :: "string \<Rightarrow> (string + audio \<times> int) option" where
  "mixed_files = [''a.wav'' \<mapsto> Inr (Mono [0, 1, 1, 1, 1], 1000),
                  ''bad.wav'' \<mapsto> Inl ''unknown format'']"

definition gone_row :: row where
  "gone_row = [''recording_file'' \<mapsto> CStr ''gone.wav'', ''trial'' \<mapsto> CFloat (Fin 1)]"

definition bad_row :: row where
  "bad_row = [''recording_file'' \<mapsto> CStr ''bad.wav'', ''trial'' \<mapsto> CFloat (Fin 2)]"

definition noted_row :: row where
  "noted_row = [''recording_file'' \<mapsto> CStr ''a.wav'', ''note'' \<mapsto> CStr ''coughed'']"

section \<open>Online session: L2\_to\_L1.py\<close>

text \<open>
  The trial orchestrator is modelled by explicit state passing over the fields of
  \<^verbatim>\<open>L2ToL1Task\<close> that the trial loop reads and writes. Everything the outside world
  decides during a trial (the readings of \<^verbatim>\<open>time.time()\<close>, the events pygame delivers,
  whether the devices start, whether the channel is busy) is given as a script, a
  \<open>world\<close>. A polling loop consumes one tick of the script per iteration; a script that
  ends before the loop does gives \<open>None\<close>: the run did not return within the script.
\<close>

definition FIXED_STIMULUS_TIME :: real where
  "FIXED_STIMULUS_TIME = 6"

definition ITI_DURATION :: real where
  "ITI_DURATION = 3 / 2"

datatype event_type =
    experiment_start | initial_long_rest | trial_start | audio_recording_start
  | audio_playback_start | prompt_onset | audio_playback_end | audio_recording_end
  | fixation_onset | trial_end | experiment_end | final_long_rest

text \<open>
  An entry of \<^verbatim>\<open>detailed_log\<close>. The descriptive keys (the words, the file names, the
  formatted timestamp string) are left out; \<open>timestamp\<close> is the clock reading the string is
  formatted from.
\<close>

record event =
  event_type :: event_type
  trial :: nat
  onset :: real
  duration :: "real option"
  timestamp :: real

text \<open>
  The task object. \<open>rec_calls\<close> is instrumentation, not a field of the source: the trial
  numbers of the runs that called \<^verbatim>\<open>sd.rec\<close>, in order.
\<close>

record task =
  audio_available :: bool
  audio_error :: "string option"
  playback_available :: bool
  playback_error :: "string option"
  trigger_time :: "real option"
  detailed_log :: "event list"
  rec_calls :: "nat list"

datatype ui_event = Quit | KeyEscape | OtherInput

text \<open>
  One iteration of the stimulus loop: the clock read by the loop condition, the events
  of \<^verbatim>\<open>pygame.event.get()\<close>, what \<^verbatim>\<open>get_busy()\<close> answers if it is asked, and the clock
  read when the end of playback is logged.
\<close>

record tick =
  tick_now :: real
  tick_events :: "ui_event list"
  tick_busy :: bool
  tick_end_time :: real

datatype rec_start = RecStarted real | RecRaised string

datatype play_start = PlayStarted real | PlayNoChannel | PlayRaised

text \<open>
  The script of one trial, in the order the source consults it. \<open>w_sound\<close> is the length
  of the loaded stimulus (\<open>None\<close>: \<^verbatim>\<open>pygame.mixer.Sound\<close> raised), \<open>w_save\<close> the clock after
  \<^verbatim>\<open>sd.wait()\<close> and \<^verbatim>\<open>sf.write\<close> (\<open>None\<close>: one of them raised).
\<close>

record world =
  w_trial_start :: real
  w_stim_exists :: bool
  w_sound :: "real option"
  w_rec_start :: rec_start
  w_play_start :: play_start
  w_prompt_onset :: real
  w_stimulus_start :: real
  w_ticks :: "tick list"
  w_save :: "real option"
  w_forced_end :: real
  w_fixation_start :: real
  w_fix_start_wait :: real
  w_fix_ticks :: "(real \<times> ui_event list) list"
  w_trial_end :: real

text \<open>What \<^verbatim>\<open>run_trial\<close> returns for a completed trial (the fields the session keeps).\<close>

record trial_info =
  info_trial :: nat
  info_recorded :: bool
  info_start_abs :: real
  info_end_abs :: real
  info_duration :: real

text \<open>
  \<^verbatim>\<open>t - self.trigger_time if self.trigger_time else 0\<close>: a trigger time that is unset or
  zero is falsy.
\<close>

definition relative_time :: "task \<Rightarrow> real \<Rightarrow> real" where
  "relative_time st t =
     (case trigger_time st of
        None \<Rightarrow> 0
      | Some tr \<Rightarrow> if tr \<noteq> 0 then t - tr else 0)"

definition log_event :: "task \<Rightarrow> event \<Rightarrow> task" where
  "log_event st ev = st\<lparr>detailed_log := detailed_log st @ [ev]\<rparr>"

definition make_event :: "task \<Rightarrow> event_type \<Rightarrow> nat \<Rightarrow> real \<Rightarrow> real option \<Rightarrow> event" where
  "make_event st ty n t d =
     \<lparr>event_type = ty, trial = n, onset = relative_time st t, duration = d, timestamp = t\<rparr>"

definition abort_requested :: "ui_event list \<Rightarrow> bool" where
  "abort_requested evs = list_ex (\<lambda>e. e = Quit \<or> e = KeyEscape) evs"

subsection \<open>run\_trial\<close>

text \<open>
  Lines 434 to 530: the \<^verbatim>\<open>trial_start\<close> entry, loading the stimulus, starting the
  recording (only when \<^verbatim>\<open>audio_available\<close>; an exception clears the flag), starting the
  playback, and the \<^verbatim>\<open>prompt_onset\<close> entry. The result is the state, whether a recording
  runs, whether a playback channel was obtained, and \<^verbatim>\<open>playback_start_time\<close>.
\<close>

definition start_recording :: "task \<Rightarrow> nat \<Rightarrow> world \<Rightarrow> task \<times> bool" where
  "start_recording st n w =
     (if audio_available st then
        (case w_rec_start w of
           RecStarted t \<Rightarrow>
             (log_event (st\<lparr>rec_calls := rec_calls st @ [n]\<rparr>)
                (make_event st audio_recording_start n t (Some FIXED_STIMULUS_TIME)), True)
         | RecRaised err \<Rightarrow>
             (st\<lparr>rec_calls := rec_calls st @ [n], audio_available := False,
                  audio_error := Some err\<rparr>, False))
      else (st, False))"

definition start_playback :: "task \<Rightarrow> nat \<Rightarrow> world \<Rightarrow> task \<times> bool \<times> real option" where
  "start_playback st n w =
     (let playback_sound =
            (if playback_available st \<and> w_stim_exists w then w_sound w else None)
      in case playback_sound of
           None \<Rightarrow> (st, False, None)
         | Some playback_duration \<Rightarrow>
             (case w_play_start w of
                PlayStarted t \<Rightarrow>
                  (log_event st (make_event st audio_playback_start n t (Some playback_duration)),
                   True, Some t)
              | PlayNoChannel \<Rightarrow> (st, False, None)
              | PlayRaised \<Rightarrow> (st, False, None)))"

definition begin_trial :: "task \<Rightarrow> nat \<Rightarrow> world \<Rightarrow> task \<times> bool \<times> bool \<times> real option" where
  "begin_trial st n w =
     (let st1 = log_event st (make_event st trial_start n (w_trial_start w) None);
          (st2, recording) = start_recording st1 n w;
          (st3, playback_channel, playback_start_time) = start_playback st2 n w;
          st4 = log_event st3
                  (make_event st3 prompt_onset n (w_prompt_onset w) (Some FIXED_STIMULUS_TIME))
      in (st4, recording, playback_channel, playback_start_time))"

text \<open>
  Lines 532 to 563, the stimulus window. The loop ends when the window has elapsed
  (\<open>Completed\<close>, with \<^verbatim>\<open>playback_end_logged\<close> and \<^verbatim>\<open>playback_end_time\<close>) or when a quit
  or escape event arrives (\<open>Interrupted\<close>: \<^verbatim>\<open>run_trial\<close> returns None). The end of
  playback is logged in the first iteration that finds the channel idle.
\<close>

datatype loop_exit = Interrupted task | Completed task bool "real option"

fun stimulus_loop ::
  "real \<Rightarrow> bool \<Rightarrow> nat \<Rightarrow> tick list \<Rightarrow> task \<Rightarrow> bool \<Rightarrow> real option \<Rightarrow> loop_exit option" where
  "stimulus_loop stimulus_start_time playback_channel n [] st logged end_time = None"
| "stimulus_loop stimulus_start_time playback_channel n (tk # tks) st logged end_time =
     (if \<not> (tick_now tk - stimulus_start_time < FIXED_STIMULUS_TIME) then
        Some (Completed st logged end_time)
      else if abort_requested (tick_events tk) then Some (Interrupted st)
      else if playback_channel \<and> \<not> logged \<and> \<not> tick_busy tk then
        stimulus_loop stimulus_start_time playback_channel n tks
          (log_event st (make_event st audio_playback_end n (tick_end_time tk) (Some 0)))
          True (Some (tick_end_time tk))
      else stimulus_loop stimulus_start_time playback_channel n tks st logged end_time)"

text \<open>\<^verbatim>\<open>show_fixation\<close>: true when the duration elapsed, false on a quit or escape event.\<close>

fun show_fixation :: "real \<Rightarrow> real \<Rightarrow> (real \<times> ui_event list) list \<Rightarrow> bool option" where
  "show_fixation start_wait dur [] = None"
| "show_fixation start_wait dur ((now, evs) # rest) =
     (if \<not> (now - start_wait < dur) then Some True
      else if abort_requested evs then Some False
      else show_fixation start_wait dur rest)"

text \<open>
  Lines 567 to 610: saving the recording, the forced end of playback (logged only when a
  playback started and no end time was taken in the loop; a start time of zero is
  falsy), and the \<^verbatim>\<open>fixation_onset\<close> entry.
\<close>

definition after_window ::
  "task \<Rightarrow> nat \<Rightarrow> world \<Rightarrow> bool \<Rightarrow> real option \<Rightarrow> real option \<Rightarrow> task" where
  "after_window st n w recording playback_start_time playback_end_time =
     (let st1 = (if recording then
                   (case w_save w of
                      Some t \<Rightarrow> log_event st (make_event st audio_recording_end n t (Some 0))
                    | None \<Rightarrow> st)
                 else st);
          started = (case playback_start_time of None \<Rightarrow> False | Some t \<Rightarrow> t \<noteq> 0);
          st2 = (if started \<and> playback_end_time = None then
                   log_event st1 (make_event st1 audio_playback_end n (w_forced_end w) (Some 0))
                 else st1)
      in log_event st2
           (make_event st2 fixation_onset n (w_fixation_start w) (Some ITI_DURATION)))"

text \<open>
  Lines 617 to 679: the duration is written into the \<^verbatim>\<open>trial_start\<close> entry, which the log
  holds by reference at the position it was appended to, and \<^verbatim>\<open>trial_end\<close> is logged.
\<close>

definition end_trial :: "task \<Rightarrow> nat \<Rightarrow> world \<Rightarrow> nat \<Rightarrow> bool \<Rightarrow> trial_info \<times> task" where
  "end_trial st n w start_pos recording =
     (let trial_duration = w_trial_end w - w_trial_start w;
          entries = detailed_log st;
          st1 = st\<lparr>detailed_log :=
                     entries[start_pos := (entries ! start_pos)\<lparr>duration := Some trial_duration\<rparr>]\<rparr>;
          st2 = log_event st1 (make_event st1 trial_end n (w_trial_end w) (Some 0))
      in (\<lparr>info_trial = n, info_recorded = recording \<and> w_save w \<noteq> None,
           info_start_abs = w_trial_start w, info_end_abs = w_trial_end w,
           info_duration = trial_duration\<rparr>, st2))"

text \<open>
  \<^verbatim>\<open>run_trial\<close>: \<open>Some (None, st)\<close> is the return of None after an interruption,
  \<open>Some (Some info, st)\<close> a completed trial, each with the task as the run left it.
\<close>

definition run_trial :: "task \<Rightarrow> nat \<Rightarrow> world \<Rightarrow> (trial_info option \<times> task) option" where
  "run_trial st trial_idx w =
     (let n = trial_idx + 1;
          start_pos = length (detailed_log st);
          (st4, recording, playback_channel, playback_start_time) = begin_trial st n w
      in case stimulus_loop (w_stimulus_start w) playback_channel n (w_ticks w) st4 False None of
           None \<Rightarrow> None
         | Some (Interrupted st5) \<Rightarrow> Some (None, st5)
         | Some (Completed st5 logged playback_end_time) \<Rightarrow>
             (let st6 = after_window st5 n w recording playback_start_time playback_end_time
              in case show_fixation (w_fix_start_wait w) ITI_DURATION (w_fix_ticks w) of
                   None \<Rightarrow> None
                 | Some False \<Rightarrow> Some (None, st6)
                 | Some True \<Rightarrow>
                     (case end_trial st6 n w start_pos recording of
                        (info, st7) \<Rightarrow> Some (Some info, st7))))"

subsection \<open>run\_task: the loop over the trials\<close>

text \<open>\<^verbatim>\<open>initialize_audio\<close>: \<open>None\<close> when \<^verbatim>\<open>sd.query_devices()\<close> returns, else its error.\<close>

definition initialize_audio :: "task \<Rightarrow> string option \<Rightarrow> task" where
  "initialize_audio st query_devices =
     (case query_devices of
        None \<Rightarrow> st\<lparr>audio_available := True, audio_error := None\<rparr>
      | Some err \<Rightarrow> st\<lparr>audio_available := False, audio_error := Some err\<rparr>)"

text \<open>
  Lines 786 to 796: one \<^verbatim>\<open>run_trial\<close> per stimulus, in order; a trial that returns None
  sets \<^verbatim>\<open>interrupted\<close> and ends the loop. The result is \<^verbatim>\<open>trial_data\<close>, \<^verbatim>\<open>interrupted\<close>
  and the task.
\<close>

fun run_trials :: "task \<Rightarrow> nat \<Rightarrow> world list \<Rightarrow> (trial_info list \<times> bool \<times> task) option" where
  "run_trials st trial_idx [] = Some ([], False, st)"
| "run_trials st trial_idx (w # ws) =
     (case run_trial st trial_idx w of
        None \<Rightarrow> None
      | Some (None, st1) \<Rightarrow> Some ([], True, st1)
      | Some (Some info, st1) \<Rightarrow>
          (case run_trials st1 (Suc trial_idx) ws of
             None \<Rightarrow> None
           | Some (infos, interrupted, st2) \<Rightarrow> Some (info # infos, interrupted, st2)))"

text \<open>How many entries of a log have a given type.\<close>

definition count_type :: "event_type \<Rightarrow> event list \<Rightarrow> nat" where
  "count_type ty evs = length (filter (\<lambda>e. event_type e = ty) evs)"

subsection \<open>Example sessions\<close>

text \<open>
  A task after a trigger at clock 100 with both devices initialised, and three trial
  scripts: one where the channel is found idle at the second iteration of the stimulus
  loop, one where the channel is still busy when the window ends (the end of playback is
  then forced), and one where \<^verbatim>\<open>sd.rec\<close> raises.
\<close>

definition demo_task :: task where
  "demo_task = \<lparr>audio_available = True, audio_error = None, playback_available = True,
                 playback_error = None, trigger_time = Some 100, detailed_log = [],
                 rec_calls = []\<rparr>"

definition polled_world :: world where
  "polled_world =
     \<lparr>w_trial_start = 110, w_stim_exists = True, w_sound = Some 2,
      w_rec_start = RecStarted 110, w_play_start = PlayStarted 110,
      w_prompt_onset = 110, w_stimulus_start = 110,
      w_ticks = [\<lparr>tick_now = 111, tick_events = [], tick_busy = True, tick_end_time = 111\<rparr>,
                 \<lparr>tick_now = 112, tick_events = [OtherInput], tick_busy = False,
                  tick_end_time = 112\<rparr>,
                 \<lparr>tick_now = 113, tick_events = [], tick_busy = False, tick_end_time = 113\<rparr>,
                 \<lparr>tick_now = 116, tick_events = [], tick_busy = False, tick_end_time = 116\<rparr>],
      w_save = Some 117, w_forced_end = 117, w_fixation_start = 117, w_fix_start_wait = 117,
      w_fix_ticks = [(118, []), (119, [])], w_trial_end = 119\<rparr>"

definition forced_world :: world where
  "forced_world =
     polled_world\<lparr>w_ticks :=
       [\<lparr>tick_now = 111, tick_events = [], tick_busy = True, tick_end_time = 111\<rparr>,
        \<lparr>tick_now = 116, tick_events = [], tick_busy = True, tick_end_time = 116\<rparr>]\<rparr>"

definition failing_world :: world where
  "failing_world = polled_world\<lparr>w_rec_start := RecRaised ''PortAudioError''\<rparr>"

subsection \<open>save\_detailed\_log\<close>

text \<open>
  A row of the table that is written: the entry with the three columns that
  \<^verbatim>\<open>save_detailed_log\<close> adds to every row.
\<close>

record log_row = event +
  col_participant_id :: string
  col_interrupted :: bool
  col_recording_directory :: string

definition add_columns :: "string \<Rightarrow> bool \<Rightarrow> string \<Rightarrow> event \<Rightarrow> log_row" where
  "add_columns pid intr dir e =
     \<lparr>event_type = event_type e, trial = trial e, onset = onset e, duration = duration e,
      timestamp = timestamp e, col_participant_id = pid, col_interrupted = intr,
      col_recording_directory = dir\<rparr>"






section \<open>Verified properties of the onset detector\<close>

subsection \<open>The scan loop\<close>

lemma py_round_lower: "x - 1 / 2 \<le> of_int (py_round x)"
proof -
  have "x < of_int \<lfloor>x\<rfloor> + 1" by linarith
  then show ?thesis unfolding py_round_def Let_def by (simp; linarith)
qed

lemma py_slice_run:
  assumes "i + m \<le> length xs"
  shows "py_slice xs (int i) (int i + int m) = take m (drop i xs)"
  using assms unfolding py_slice_def Let_def by (simp add: min_def)

lemma bool_run_head:
  assumes "0 < m" "bool_run abv m k"
  shows "abv ! k"
proof -
  from assms have k: "k < length abv" by (simp add: bool_run_def)
  then have "drop k abv = abv ! k # drop (Suc k) abv" by (simp add: Cons_nth_drop_Suc)
  moreover obtain m' where "m = Suc m'" using assms(1) by (cases m) auto
  ultimately show ?thesis using assms(2) by (simp add: bool_run_def)
qed

lemma scan_above_slice:
  assumes "1 \<le> mf" "int i + mf \<le> int (length abv)"
  shows "list_all (\<lambda>b. b) (py_slice abv (int i) (int i + mf)) = bool_run abv (nat mf) i"
proof -
  have "i + nat mf \<le> length abv" using assms by linarith
  moreover have "mf = int (nat mf)" using assms(1) by simp
  ultimately show ?thesis
    using py_slice_run[of i "nat mf" abv] by (simp add: bool_run_def)
qed

text \<open>A search that fails has passed over every index: no run starts at or after \<open>i\<close>.\<close>

lemma scan_above_None:
  "1 \<le> mf \<Longrightarrow> scan_above abv mf i = None \<Longrightarrow> i \<le> k \<Longrightarrow> \<not> bool_run abv (nat mf) k"
proof (induction abv mf i rule: scan_above.induct)
  case (1 abv mf i)
  have pos: "0 < nat mf" using "1.prems"(1) by simp
  show ?case
  proof (cases "length abv \<le> i")
    case True
    then show ?thesis using "1.prems" pos by (simp add: bool_run_def)
  next
    case inr: False
    show ?thesis
    proof (cases "abv ! i")
      case False
      then have "scan_above abv mf (Suc i) = None"
        using "1.prems"(2) inr by (simp add: scan_above.simps[of abv mf i])
      then have "Suc i \<le> k \<Longrightarrow> \<not> bool_run abv (nat mf) k"
        using "1.IH"(1)[OF inr _ "1.prems"(1)] False by simp
      moreover have "\<not> bool_run abv (nat mf) i"
        using bool_run_head[OF pos] False by blast
      ultimately show ?thesis using "1.prems"(3) by (cases "k = i") auto
    next
      case hit: True
      show ?thesis
      proof (cases "int (length abv) < int i + mf")
        case True
        then show ?thesis using "1.prems"(1,3) by (simp add: bool_run_def)
      next
        case fits: False
        then have sl: "list_all (\<lambda>b. b) (py_slice abv (int i) (int i + mf)) = bool_run abv (nat mf) i"
          using scan_above_slice[of mf i abv] "1.prems"(1) by simp
        have nr: "\<not> bool_run abv (nat mf) i"
          using "1.prems"(2) inr hit fits sl by (simp add: scan_above.simps[of abv mf i] split: if_splits)
        then have "scan_above abv mf (Suc i) = None"
          using "1.prems"(2) inr hit fits sl by (simp add: scan_above.simps[of abv mf i])
        then have "Suc i \<le> k \<Longrightarrow> \<not> bool_run abv (nat mf) k"
          using "1.IH"(2)[OF inr _ _ _ "1.prems"(1)] hit fits nr sl by simp
        then show ?thesis using nr "1.prems"(3) by (cases "k = i") auto
      qed
    qed
  qed
qed

text \<open>A search that succeeds returns the first index at or after \<open>i\<close> where a run starts.\<close>

lemma scan_above_Some:
  "1 \<le> mf \<Longrightarrow> scan_above abv mf i = Some r \<Longrightarrow>
     i \<le> r \<and> bool_run abv (nat mf) r \<and> (\<forall>k. i \<le> k \<and> k < r \<longrightarrow> \<not> bool_run abv (nat mf) k)"
proof (induction abv mf i rule: scan_above.induct)
  case (1 abv mf i)
  have pos: "0 < nat mf" using "1.prems"(1) by simp
  have inr: "\<not> length abv \<le> i"
    using "1.prems"(2) by (simp add: scan_above.simps[of abv mf i] split: if_splits)
  show ?case
  proof (cases "abv ! i")
    case False
    then have rec: "scan_above abv mf (Suc i) = Some r"
      using "1.prems"(2) inr by (simp add: scan_above.simps[of abv mf i])
    have ih: "Suc i \<le> r \<and> bool_run abv (nat mf) r \<and>
              (\<forall>k. Suc i \<le> k \<and> k < r \<longrightarrow> \<not> bool_run abv (nat mf) k)"
      using "1.IH"(1)[OF inr _ "1.prems"(1) rec] False by simp
    moreover have "\<not> bool_run abv (nat mf) i"
      using bool_run_head[OF pos] False by blast
    ultimately show ?thesis by (metis Suc_leI le_neq_implies_less Suc_leD)
  next
    case hit: True
    have fits: "\<not> int (length abv) < int i + mf"
      using "1.prems"(2) inr hit by (simp add: scan_above.simps[of abv mf i] split: if_splits)
    then have sl: "list_all (\<lambda>b. b) (py_slice abv (int i) (int i + mf)) = bool_run abv (nat mf) i"
      using scan_above_slice[of mf i abv] "1.prems"(1) by simp
    show ?thesis
    proof (cases "bool_run abv (nat mf) i")
      case True
      then have "r = i"
        using "1.prems"(2) inr hit fits sl by (simp add: scan_above.simps[of abv mf i])
      then show ?thesis using True by auto
    next
      case nr: False
      then have rec: "scan_above abv mf (Suc i) = Some r"
        using "1.prems"(2) inr hit fits sl by (simp add: scan_above.simps[of abv mf i])
      have ih: "Suc i \<le> r \<and> bool_run abv (nat mf) r \<and>
                (\<forall>k. Suc i \<le> k \<and> k < r \<longrightarrow> \<not> bool_run abv (nat mf) k)"
        using "1.IH"(2)[OF inr _ _ _ "1.prems"(1) rec] hit fits nr sl by simp
      then show ?thesis using nr by (metis Suc_leI le_neq_implies_less Suc_leD)
    qed
  qed
qed

lemma start_index_le: "start_index e sr t \<le> length e"
  by (simp add: start_index_def Let_def)

lemma bool_run_map_drop:
  assumes "s \<le> length e"
  shows "bool_run (map (\<lambda>x. thr < x) (drop s e)) m k = run_above e thr m (s + k)"
proof -
  have "drop k (map (\<lambda>x. thr < x) (drop s e)) = map (\<lambda>x. thr < x) (drop (s + k) e)"
    by (simp add: drop_map add.commute)
  then have "list_all (\<lambda>b. b) (take m (drop k (map (\<lambda>x. thr < x) (drop s e))))
           = list_all (\<lambda>x. thr < x) (take m (drop (s + k) e))"
    by (simp add: take_map list_all_iff)
  moreover have "k + m \<le> length (map (\<lambda>x. thr < x) (drop s e)) \<longleftrightarrow> s + k + m \<le> length e"
    using assms by auto
  ultimately show ?thesis by (simp add: bool_run_def run_above_def)
qed

subsection \<open>C1: primary detection finds the first sustained run\<close>

text \<open>
  Claim C1, for \<open>min_frames \<ge> 1\<close> and a sample rate other than zero: \<open>detect_onset_after\<close>
  returns the onset at the first index \<open>i\<close> at or after the search start
  (\<open>start_index\<close>: \<open>start_ms\<close> as a sample index, clamped to the array) such that
  \<open>min_frames\<close> consecutive energy frames from \<open>i\<close> on all strictly exceed the threshold, as
  the centre of that frame, \<open>(i + frame_length / 2) / sample_rate * 1000\<close>; and it returns
  none exactly when no such run fits within the energy array.
\<close>

theorem detect_onset_after_first_run:
  assumes "1 \<le> min_frames" and "sample_rate \<noteq> 0"
  shows "(\<exists>i. start_index energy_db sample_rate start_ms \<le> i
            \<and> run_above energy_db threshold_db (nat min_frames) i
            \<and> (\<forall>k. start_index energy_db sample_rate start_ms \<le> k \<and> k < i
                   \<longrightarrow> \<not> run_above energy_db threshold_db (nat min_frames) k)
            \<and> detect_onset_after energy_db sample_rate frame_length start_ms threshold_db min_frames
                = Inr (Some (frame_center_ms i frame_length sample_rate)))
       \<or> ((\<forall>i. start_index energy_db sample_rate start_ms \<le> i
                \<longrightarrow> \<not> run_above energy_db threshold_db (nat min_frames) i)
           \<and> detect_onset_after energy_db sample_rate frame_length start_ms threshold_db min_frames
                = Inr None)"
proof -
  define s where "s = start_index energy_db sample_rate start_ms"
  define abv where "abv = map (\<lambda>e. threshold_db < e) (drop s energy_db)"
  have sl: "s \<le> length energy_db" by (simp add: s_def start_index_le)
  have br: "bool_run abv (nat min_frames) k = run_above energy_db threshold_db (nat min_frames) (s + k)" for k
    unfolding abv_def by (rule bool_run_map_drop[OF sl])
  show ?thesis
  proof (cases "scan_above abv min_frames 0")
    case None
    have "\<not> run_above energy_db threshold_db (nat min_frames) i" if "s \<le> i" for i
    proof -
      have "\<not> bool_run abv (nat min_frames) (i - s)"
        using scan_above_None[OF assms(1) None, of "i - s"] by simp
      then show ?thesis using br[of "i - s"] that by simp
    qed
    moreover have "detect_onset_after energy_db sample_rate frame_length start_ms threshold_db min_frames = Inr None"
      using None unfolding detect_onset_after_def Let_def s_def[symmetric] abv_def[symmetric] by simp
    ultimately show ?thesis unfolding s_def by blast
  next
    case (Some r)
    from scan_above_Some[OF assms(1) Some]
    have run: "bool_run abv (nat min_frames) r"
      and first: "\<And>k. k < r \<Longrightarrow> \<not> bool_run abv (nat min_frames) k" by auto
    have 1: "run_above energy_db threshold_db (nat min_frames) (s + r)" using run br by simp
    have 2: "\<not> run_above energy_db threshold_db (nat min_frames) k" if "s \<le> k" "k < s + r" for k
    proof -
      have "k - s < r" using that by arith
      then have "\<not> bool_run abv (nat min_frames) (k - s)" by (rule first)
      then show ?thesis using br[of "k - s"] that by simp
    qed
    have 3: "detect_onset_after energy_db sample_rate frame_length start_ms threshold_db min_frames
               = Inr (Some (frame_center_ms (s + r) frame_length sample_rate))"
      using Some assms(2) unfolding detect_onset_after_def Let_def frame_center_ms_def s_def[symmetric] abv_def[symmetric] by simp
    have "s \<le> s + r" by simp
    with 1 2 3 show ?thesis unfolding s_def by blast
  qed
qed

text \<open>
  The theorem at a six-frame array whose frames 1 to 4 exceed -40 dB: the onset is the
  centre of frame 1, 6 ms at 1000 Hz with 10-sample frames.
\<close>

theorem detect_onset_after_first_run_witness:
  "(1::int) \<le> 4 \<and> (1000::int) \<noteq> 0
   \<and> detect_onset_after [-50, -30, -30, -30, -30, -50] 1000 10 0 (-40) 4 = Inr (Some 6)
   \<and> ((\<exists>i. start_index [-50, -30, -30, -30, -30, -50] 1000 0 \<le> i
            \<and> run_above [-50, -30, -30, -30, -30, -50] (-40) (nat 4) i
            \<and> (\<forall>k. start_index [-50, -30, -30, -30, -30, -50] 1000 0 \<le> k \<and> k < i
                   \<longrightarrow> \<not> run_above [-50, -30, -30, -30, -30, -50] (-40) (nat 4) k)
            \<and> detect_onset_after [-50, -30, -30, -30, -30, -50] 1000 10 0 (-40) 4
                = Inr (Some (frame_center_ms i 10 1000)))
       \<or> ((\<forall>i. start_index [-50, -30, -30, -30, -30, -50] 1000 0 \<le> i
                \<longrightarrow> \<not> run_above [-50, -30, -30, -30, -30, -50] (-40) (nat 4) i)
           \<and> detect_onset_after [-50, -30, -30, -30, -30, -50] 1000 10 0 (-40) 4 = Inr None))"
proof -
  have h1: "(1::int) \<le> 4" and h2: "(1000::int) \<noteq> 0" by simp_all
  have v: "detect_onset_after [-50, -30, -30, -30, -30, -50] 1000 10 0 (-40) 4 = Inr (Some 6)"
    by (simp add: detect_onset_after_def start_index_def py_round_def scan_above.simps
          py_slice_def Let_def)
  show ?thesis
    using h1 h2 v
      detect_onset_after_first_run[OF h1 h2, of "[-50, -30, -30, -30, -30, -50]" 0 "-40" 10]
    by blast
qed

text \<open>
  The claim as stated ranges over every \<open>min_frames\<close>. At \<open>min_frames = 0\<close> a run of zero
  frames starts (vacuously) at index 0 of a one-frame array below the threshold, yet the
  loop skips every frame that is not itself above the threshold and reports no onset.
\<close>

theorem detect_onset_after_zero_frames_counterexample:
  "run_above [-50] (-40) (nat 0) 0 \<and> start_index [-50] 1000 0 = 0
   \<and> detect_onset_after [-50] 1000 10 0 (-40) 0 = Inr None"
  by (simp add: run_above_def detect_onset_after_def start_index_def py_round_def
        scan_above.simps py_slice_def Let_def)

subsection \<open>The detected onset is never before the search start\<close>

lemma scan_above_Some_lt:
  "scan_above abv mf i = Some r \<Longrightarrow> i \<le> r \<and> r < length abv"
proof (induction abv mf i rule: scan_above.induct)
  case (1 abv mf i)
  have inr: "\<not> length abv \<le> i"
    using "1.prems" by (simp add: scan_above.simps[of abv mf i] split: if_splits)
  show ?case
  proof (cases "abv ! i")
    case False
    then have "scan_above abv mf (Suc i) = Some r"
      using "1.prems" inr by (simp add: scan_above.simps[of abv mf i])
    then show ?thesis using "1.IH"(1)[OF inr] False by simp
  next
    case hit: True
    have fits: "\<not> int (length abv) < int i + mf"
      using "1.prems" inr hit by (simp add: scan_above.simps[of abv mf i] split: if_splits)
    show ?thesis
    proof (cases "list_all (\<lambda>b. b) (py_slice abv (int i) (int i + mf))")
      case True
      then have "r = i"
        using "1.prems" inr hit fits by (simp add: scan_above.simps[of abv mf i])
      then show ?thesis using inr by simp
    next
      case False
      then have "scan_above abv mf (Suc i) = Some r"
        using "1.prems" inr hit fits by (simp add: scan_above.simps[of abv mf i])
      then show ?thesis using "1.IH"(2)[OF inr _ fits False] hit by simp
    qed
  qed
qed

text \<open>
  An onset is found only when the search start lies inside the array, so the clamped start
  index is at least the rounded start sample; rounding loses at most half a sample, which
  the half frame added for the frame centre makes up for.
\<close>

lemma detect_onset_after_lower:
  assumes sr: "0 < sample_rate" and fl: "1 \<le> frame_length"
    and det: "detect_onset_after energy_db sample_rate frame_length start_ms threshold_db min_frames
                = Inr (Some t)"
  shows "start_ms \<le> t"
proof -
  define s where "s = start_index energy_db sample_rate start_ms"
  define abv where "abv = map (\<lambda>e. threshold_db < e) (drop s energy_db)"
  define x where "x = start_ms / 1000 * of_int sample_rate"
  obtain i where sc: "scan_above abv min_frames 0 = Some i"
    and t: "t = (real (s + i) + of_int frame_length / 2) / of_int sample_rate * 1000"
    using det sr unfolding detect_onset_after_def Let_def s_def[symmetric] abv_def[symmetric]
    by (auto split: option.splits if_splits)
  have "i < length abv" using scan_above_Some_lt[OF sc] by simp
  then have "s < length energy_db" by (simp add: abv_def)
  then have "py_round x \<le> int s"
    unfolding s_def start_index_def Let_def x_def by (simp add: min_def max_def split: if_splits)
  then have "of_int (py_round x) \<le> real s"
    by (metis of_int_le_iff of_int_of_nat_eq)
  moreover have "x - 1 / 2 \<le> of_int (py_round x)" by (rule py_round_lower)
  moreover have "1 / 2 \<le> (of_int frame_length :: real) / 2" using fl by simp
  ultimately have "x \<le> real (s + i) + of_int frame_length / 2" by simp
  moreover have srp: "0 < (of_int sample_rate :: real)" using sr by simp
  ultimately have "x / of_int sample_rate * 1000 \<le> t"
    unfolding t by (simp add: divide_right_mono)
  moreover have "x / of_int sample_rate * 1000 = start_ms" using srp by (simp add: x_def)
  ultimately show ?thesis by simp
qed

lemma rolling_energy_db_shape:
  assumes "rolling_energy_db signal sample_rate frame_ms = Inr (energy_db, frame_length)"
  shows "1 \<le> frame_length \<and> energy_db \<noteq> []"
  using assms unfolding rolling_energy_db_def convolve_valid_def Let_def
  by (auto split: if_splits sum.splits)

lemma analyze_detect_lower:
  assumes "0 < sample_rate" "1 \<le> frame_length"
    and "analyze_detect energy_db sample_rate frame_length playback_end_rel threshold_db
           min_frames guard_ms = Inr (Some t, fallback_used, dynamic_threshold)"
  shows "playback_end_rel + guard_ms \<le> t"
  using assms(3) detect_onset_after_lower[OF assms(1,2)]
  unfolding analyze_detect_def Let_def
  by (auto split: sum.splits if_splits)

subsection \<open>What a result record holds\<close>

lemma finish_result_status:
  "finish_result (initial_result row p) e pe ons fb dyn ''status''
     = Some (CStr (case ons of None \<Rightarrow> ''no_speech_detected'' | Some t \<Rightarrow> ''ok''))"
  by (simp add: finish_result_def initial_result_def Let_def split: option.splits)

lemma finish_result_onset:
  "finish_result (initial_result row p) e pe ons fb dyn ''onset_ms_from_recording_start''
     = Some (case ons of None \<Rightarrow> CNone | Some t \<Rightarrow> CFloat (Fin t))"
  by (simp add: finish_result_def initial_result_def Let_def split: option.splits)

lemma finish_result_latency:
  "finish_result (initial_result row p) e pe ons fb dyn ''latency_ms_from_playback_end''
     = Some (case ons of None \<Rightarrow> CNone | Some t \<Rightarrow> CFloat (Fin (t - pe)))"
  by (simp add: finish_result_def initial_result_def Let_def split: option.splits)

lemma finish_result_playback_end:
  "finish_result result e pe ons fb dyn ''playback_end_ms_rel'' = Some (CFloat (Fin pe))"
  by (simp add: finish_result_def Let_def split: option.splits)

lemma finish_result_fallback:
  "finish_result result e pe ons fb dyn ''fallback_used'' = Some (CBool fb)"
  by (simp add: finish_result_def Let_def split: option.splits)

lemma finish_result_dynamic:
  "finish_result result e pe ons fb dyn ''dynamic_threshold_db'' = Some (CFloat (Fin dyn))"
  by (simp add: finish_result_def Let_def split: option.splits)

lemma analyze_row_missing:
  assumes "\<not> isfile ev (build_wav_path ev row)"
  shows "analyze_row ev thr fms mf g row
           = Inr ((initial_result row (build_wav_path ev row))
                    (''status'' \<mapsto> CStr ''missing'', ''note'' \<mapsto> CStr ''WAV not found''))"
  using assms by (simp add: analyze_row_def Let_def)

lemma analyze_row_read_error:
  assumes "isfile ev (build_wav_path ev row)" "sf_read ev (build_wav_path ev row) = Inl err"
  shows "analyze_row ev thr fms mf g row
           = Inr ((initial_result row (build_wav_path ev row))
                    (''status'' \<mapsto> CStr ''read_error'',
                     ''note'' \<mapsto> CStr (''read error: '' @ err)))"
  using assms by (simp add: analyze_row_def Let_def)

lemma analyze_row_readable:
  assumes "isfile ev (build_wav_path ev row)"
    and "sf_read ev (build_wav_path ev row) = Inr (au, sr)"
  shows "analyze_row ev thr fms mf g row
           = analyze_audio ev thr fms mf g row (initial_result row (build_wav_path ev row))
               (to_mono au) sr"
  using assms by (simp add: analyze_row_def Let_def)

lemma analyze_audio_Inr:
  assumes "analyze_audio ev thr fms mf g row result signal sr = Inr res"
  obtains e L pa rs pe ons fb dyn where
    "rolling_energy_db signal sr fms = Inr (e, L)"
    "py_float (str_to_float ev) (row_get row ''playback_end_ms'' (CFloat (Fin 0))) = Inr pa"
    "py_float (str_to_float ev) (row_get row ''recording_start_ms'' (CFloat (Fin 0))) = Inr rs"
    "max_zero (xsub pa rs) = Some pe"
    "analyze_detect e sr L pe thr mf g = Inr (ons, fb, dyn)"
    "res = finish_result result e pe ons fb dyn"
  using assms unfolding analyze_audio_def
  by (auto split: sum.splits option.splits prod.splits)

subsection \<open>Evaluating the example recording\<close>

lemma energy_to_db_zero: "energy_to_db 0 = - 120"
proof -
  have "log 10 ((10::real) ^ 12) = real 12 * log 10 10"
    by (rule log_nat_power) simp
  then have "log 10 (1 / 10 ^ 12) = - 12"
    by (simp add: log_divide)
  then show ?thesis by (simp add: energy_to_db_def max_def)
qed

lemma energy_to_db_one: "energy_to_db 1 = 0"
  by (simp add: energy_to_db_def max_def)

lemma speech_energy: "rolling_energy_db [0, 1, 1, 1, 1] 1000 1 = Inr ([- 120, 0, 0, 0, 0], 1)"
  by (simp add: rolling_energy_db_def convolve_valid_def py_round_def Let_def
        energy_to_db_zero energy_to_db_one upt_rec)

lemma speech_detect:
  "detect_onset_after [- 120, 0, 0, 0, 0] 1000 1 0 (- 40) 4 = Inr (Some (3 / 2))"
  by (simp add: detect_onset_after_def start_index_def py_round_def scan_above.simps
        py_slice_def Let_def)

lemma speech_analyze_detect:
  "analyze_detect [- 120, 0, 0, 0, 0] 1000 1 0 (- 40) 4 0 = Inr (Some (3 / 2), False, - 40)"
  by (simp add: analyze_detect_def speech_detect Let_def)

lemma speech_analyze_row:
  "analyze_row (example_env speech_files) (- 40) 1 4 0 speech_row
     = Inr (finish_result (initial_result speech_row ''a.wav'') [- 120, 0, 0, 0, 0] 0
              (Some (3 / 2)) False (- 40))"
  by (simp add: analyze_row_def Let_def example_env_def speech_files_def speech_row_def
        analyze_audio_def speech_energy row_get_def speech_analyze_detect)

subsection \<open>C10: a reported onset lies after the guarded search start\<close>

text \<open>
  Claim C10: whenever the analysis of a row (primary or fallback detection) reports an
  onset \<open>t\<close>, with a positive sample rate and \<open>guard_ms \<ge> 0\<close>, the reported
  \<^verbatim>\<open>onset_ms_from_recording_start\<close> is at least \<^verbatim>\<open>playback_end_ms_rel + guard_ms\<close>, the
  reported \<^verbatim>\<open>latency_ms_from_playback_end\<close> is \<open>t\<close> minus the playback end and at least
  \<open>guard_ms\<close>, and the onset is not before the playback end. The frame length is at
  least one sample in every run (\<open>rolling_energy_db_shape\<close>).
\<close>

theorem reported_onset_after_guard:
  assumes guard: "0 \<le> guard_ms"
    and rd: "sf_read ev (build_wav_path ev row) = Inr (au, sample_rate)"
    and sr: "0 < sample_rate"
    and res: "analyze_row ev threshold_db frame_ms min_frames guard_ms row = Inr res"
    and rep: "res ''onset_ms_from_recording_start'' = Some (CFloat (Fin t))"
  shows "\<exists>pe. res ''playback_end_ms_rel'' = Some (CFloat (Fin pe))
            \<and> pe + guard_ms \<le> t
            \<and> res ''latency_ms_from_playback_end'' = Some (CFloat (Fin (t - pe)))
            \<and> guard_ms \<le> t - pe \<and> pe \<le> t"
proof -
  let ?p = "build_wav_path ev row"
  have isf: "isfile ev ?p"
  proof (rule ccontr)
    assume "\<not> isfile ev ?p"
    then have "res ''onset_ms_from_recording_start'' = Some CNone"
      using res analyze_row_missing[of ev row threshold_db frame_ms min_frames guard_ms]
      by (auto simp: initial_result_def)
    then show False using rep by simp
  qed
  have "analyze_audio ev threshold_db frame_ms min_frames guard_ms row (initial_result row ?p)
          (to_mono au) sample_rate = Inr res"
    using res analyze_row_readable[OF isf rd] by simp
  then obtain e L pa rs pe ons fb dyn where
    roll: "rolling_energy_db (to_mono au) sample_rate frame_ms = Inr (e, L)"
    and det: "analyze_detect e sample_rate L pe threshold_db min_frames guard_ms = Inr (ons, fb, dyn)"
    and fin: "res = finish_result (initial_result row ?p) e pe ons fb dyn"
    by (rule analyze_audio_Inr)
  have L: "1 \<le> L" using rolling_energy_db_shape[OF roll] by simp
  have o: "ons = Some t"
    using rep unfolding fin finish_result_onset by (cases ons) auto
  have low: "pe + guard_ms \<le> t"
    using analyze_detect_lower[OF sr L] det o by simp
  have "res ''playback_end_ms_rel'' = Some (CFloat (Fin pe))"
    unfolding fin by (rule finish_result_playback_end)
  moreover have "res ''latency_ms_from_playback_end'' = Some (CFloat (Fin (t - pe)))"
    unfolding fin finish_result_latency o by simp
  ultimately show ?thesis using low guard by auto
qed

text \<open>
  The theorem at the example recording, analysed with the default threshold, 1 ms frames
  and no guard: the onset is reported at 1.5 ms, after the playback end at 0 ms.
\<close>

theorem reported_onset_after_guard_witness:
  "(0::real) \<le> 0
   \<and> sf_read (example_env speech_files) (build_wav_path (example_env speech_files) speech_row)
       = Inr (Mono [0, 1, 1, 1, 1], 1000)
   \<and> (0::int) < 1000
   \<and> analyze_row (example_env speech_files) (- 40) 1 4 0 speech_row
       = Inr (finish_result (initial_result speech_row ''a.wav'') [- 120, 0, 0, 0, 0] 0
                (Some (3 / 2)) False (- 40))
   \<and> finish_result (initial_result speech_row ''a.wav'') [- 120, 0, 0, 0, 0] 0
        (Some (3 / 2)) False (- 40) ''onset_ms_from_recording_start'' = Some (CFloat (Fin (3 / 2)))
   \<and> (\<exists>pe. finish_result (initial_result speech_row ''a.wav'') [- 120, 0, 0, 0, 0] 0
               (Some (3 / 2)) False (- 40) ''playback_end_ms_rel'' = Some (CFloat (Fin pe))
            \<and> pe + 0 \<le> 3 / 2
            \<and> finish_result (initial_result speech_row ''a.wav'') [- 120, 0, 0, 0, 0] 0
                (Some (3 / 2)) False (- 40) ''latency_ms_from_playback_end''
                = Some (CFloat (Fin (3 / 2 - pe)))
            \<and> 0 \<le> 3 / 2 - pe \<and> pe \<le> 3 / 2)"
proof -
  have g: "(0::real) \<le> 0" and s: "(0::int) < 1000" by simp_all
  have rd: "sf_read (example_env speech_files)
              (build_wav_path (example_env speech_files) speech_row)
            = Inr (Mono [0, 1, 1, 1, 1], 1000)"
    by (simp add: example_env_def speech_files_def speech_row_def)
  have on: "finish_result (initial_result speech_row ''a.wav'') [- 120, 0, 0, 0, 0] 0
              (Some (3 / 2)) False (- 40) ''onset_ms_from_recording_start''
            = Some (CFloat (Fin (3 / 2)))"
    by (simp add: finish_result_onset)
  show ?thesis
    using g rd s speech_analyze_row on
      reported_onset_after_guard[OF g rd s speech_analyze_row on]
    by blast
qed

subsection \<open>C2: the fallback pass\<close>

lemma detect_onset_after_total:
  assumes "sample_rate \<noteq> 0"
  shows "\<exists>r. detect_onset_after energy_db sample_rate frame_length start_ms threshold_db min_frames = Inr r"
  using assms unfolding detect_onset_after_def Let_def by (auto split: option.splits)

text \<open>
  The slice the source takes for the noise estimate is the pre-playback-end region, and
  the value \<^verbatim>\<open>np.percentile\<close> returns for it lies at the rank of the percentile asked for.
\<close>

lemma filter_below_upt: "filter (\<lambda>i. i < k) [0..<n] = [0..<min n k]"
proof (induction n)
  case 0
  show ?case by simp
next
  case (Suc n)
  show ?case
  proof (cases "n < k")
    case True
    then show ?thesis using Suc by (simp add: min_def)
  next
    case False
    then have "min n k = k" "min (Suc n) k = k" by simp_all
    then show ?thesis using Suc False by simp
  qed
qed

lemma take_as_map_nth: "take k xs = map (\<lambda>i. xs ! i) [0..<min (length xs) k]"
  by (rule nth_equalityI) auto

lemma pre_region_frames:
  "pre_region energy_db sample_rate playback_end_rel
     = frames_before_playback_end energy_db sample_rate playback_end_rel"
proof -
  define x where "x = playback_end_rel / 1000 * of_int sample_rate"
  define k where "k = (if 1 < x then nat \<lfloor>x\<rfloor> else 1)"
  have iff: "(i = 0 \<or> real (Suc i) \<le> x) \<longleftrightarrow> i < k" for i
  proof (cases "1 < x")
    case True
    then have "1 \<le> \<lfloor>x\<rfloor>" by linarith
    moreover have "real (Suc i) \<le> x \<longleftrightarrow> int (Suc i) \<le> \<lfloor>x\<rfloor>"
      by (simp add: le_floor_iff)
    ultimately show ?thesis using True unfolding k_def by (cases i) auto
  next
    case False
    then show ?thesis unfolding k_def by auto
  qed
  have "filter (\<lambda>i. i = 0 \<or> real (Suc i) \<le> x) [0..<length energy_db]
          = [0..<min (length energy_db) k]"
    unfolding iff by (rule filter_below_upt)
  then show ?thesis
    unfolding pre_region_def frames_before_playback_end_def Let_def x_def[symmetric]
      k_def[symmetric]
    by (simp add: take_as_map_nth)
qed

lemma length_filter_take_le: "length (filter P (take k s)) \<le> length (filter P s)"
proof -
  have "filter P s = filter P (take k s) @ filter P (drop k s)"
    by (metis append_take_drop_id filter_append)
  then show ?thesis by simp
qed

lemma length_filter_drop_le: "length (filter P (drop k s)) \<le> length (filter P s)"
proof -
  have "filter P s = filter P (take k s) @ filter P (drop k s)"
    by (metis append_take_drop_id filter_append)
  then show ?thesis by simp
qed

lemma length_filter_mset: "mset s = mset xs \<Longrightarrow> length (filter P s) = length (filter P xs)"
  by (metis mset_filter size_mset)

lemma percentile_at_rank:
  assumes ne: "xs \<noteq> []" and q0: "0 \<le> q" and q1: "q \<le> 100"
  shows "at_rank xs q (percentile xs q)"
proof -
  define s where "s = sort xs"
  define n where "n = length xs"
  define h where "h = q / 100 * real (n - 1)"
  define lo where "lo = nat \<lfloor>h\<rfloor>"
  define hi where "hi = min (lo + 1) (n - 1)"
  define v where "v = s ! lo + (h - real lo) * (s ! hi - s ! lo)"
  have v: "percentile xs q = v"
    unfolding percentile_def Let_def v_def hi_def lo_def h_def n_def s_def ..
  have n: "0 < n" using ne by (simp add: n_def)
  have len: "length s = n" by (simp add: s_def n_def)
  have srt: "sorted s" by (simp add: s_def)
  have ms: "mset s = mset xs" by (simp add: s_def)
  have h0: "0 \<le> h" using q0 by (simp add: h_def)
  have "h \<le> 1 * real (n - 1)" unfolding h_def using q0 q1 by (intro mult_right_mono) auto
  then have h1: "h \<le> real (n - 1)" by simp
  have lo_le: "real lo \<le> h" using h0 by (simp add: lo_def)
  have lo_gt: "h < real lo + 1" using h0 unfolding lo_def by linarith
  have lo_n: "lo \<le> n - 1" using lo_le h1 by linarith
  then have lo_lt: "lo < n" using n by linarith
  have hi_lt: "hi < n" using n by (simp add: hi_def)
  have lo_hi: "lo \<le> hi" using lo_n by (simp add: hi_def)
  have d: "s ! lo \<le> s ! hi"
    using srt lo_hi hi_lt len by (simp add: sorted_nth_mono)
  have t0: "0 \<le> h - real lo" using lo_le by simp
  have t1: "h - real lo \<le> 1" using lo_gt by simp
  have v_lo: "s ! lo \<le> v"
    unfolding v_def using t0 d by (simp add: mult_nonneg_nonneg)
  have "(h - real lo) * (s ! hi - s ! lo) \<le> 1 * (s ! hi - s ! lo)"
    using t1 d by (intro mult_right_mono) auto
  then have v_hi: "v \<le> s ! hi" unfolding v_def by simp
  have "\<forall>x\<in>set (take (Suc lo) s). x \<le> v"
  proof
    fix x assume "x \<in> set (take (Suc lo) s)"
    then obtain i where i: "i < Suc lo" "i < length s" "x = s ! i"
      by (auto simp: in_set_conv_nth)
    then have "s ! i \<le> s ! lo" using srt lo_lt len by (intro sorted_nth_mono) auto
    then show "x \<le> v" using v_lo i by simp
  qed
  then have "filter (\<lambda>x. x \<le> v) (take (Suc lo) s) = take (Suc lo) s" by simp
  then have "length (filter (\<lambda>x. x \<le> v) (take (Suc lo) s)) = Suc lo"
    using lo_lt len by simp
  then have "Suc lo \<le> length (filter (\<lambda>x. x \<le> v) s)"
    using length_filter_take_le[of "\<lambda>x. x \<le> v" "Suc lo" s] by simp
  then have c1: "Suc lo \<le> length (filter (\<lambda>x. x \<le> v) xs)"
    using length_filter_mset[OF ms] by simp
  have "\<forall>x\<in>set (drop hi s). v \<le> x"
  proof
    fix x assume "x \<in> set (drop hi s)"
    then obtain i where i: "i < length s - hi" "x = s ! (hi + i)"
      by (auto simp: in_set_conv_nth)
    then have "s ! hi \<le> s ! (hi + i)" using srt by (intro sorted_nth_mono) auto
    then show "v \<le> x" using v_hi i by simp
  qed
  then have "filter (\<lambda>x. v \<le> x) (drop hi s) = drop hi s" by simp
  then have "length (filter (\<lambda>x. v \<le> x) (drop hi s)) = n - hi"
    using len by simp
  then have "n - hi \<le> length (filter (\<lambda>x. v \<le> x) s)"
    using length_filter_drop_le[of "\<lambda>x. v \<le> x" hi s] by simp
  then have c2: "n - hi \<le> length (filter (\<lambda>x. v \<le> x) xs)"
    using length_filter_mset[OF ms] by simp
  have rn: "real (n - 1) = real n - 1" using n by (simp add: of_nat_diff)
  have a1: "q / 100 * (real n - 1) < real (length (filter (\<lambda>x. x \<le> v) xs))"
  proof -
    have "q / 100 * (real n - 1) = h" by (simp only: h_def rn)
    also have "\<dots> < real (Suc lo)" using lo_gt by simp
    also have "\<dots> \<le> real (length (filter (\<lambda>x. x \<le> v) xs))" using c1 by simp
    finally show ?thesis .
  qed
  have a2: "(1 - q / 100) * (real n - 1) \<le> real (length (filter (\<lambda>x. v \<le> x) xs))"
  proof -
    have "(1 - q / 100) * (real n - 1) = real n - 1 - h"
      by (simp only: h_def rn) (simp add: algebra_simps)
    also have "\<dots> \<le> real (n - hi)"
    proof (cases "lo + 1 \<le> n - 1")
      case True
      then have "hi = lo + 1" by (simp add: hi_def)
      then have "real (n - hi) = real n - 1 - real lo" using True by (simp add: of_nat_diff)
      then show ?thesis using lo_le by simp
    next
      case False
      then have "lo = n - 1" using lo_n by simp
      then have "real n - 1 - h \<le> 0" using lo_le rn by simp
      then show ?thesis by linarith
    qed
    also have "\<dots> \<le> real (length (filter (\<lambda>x. v \<le> x) xs))" using c2 by simp
    finally show ?thesis .
  qed
  have "at_rank xs q v" unfolding at_rank_def using a1 a2 by (simp add: n_def)
  then show ?thesis by (simp only: v)
qed

text \<open>
  Claim C2: for a recording that is read (with a sample rate other than zero), on which the
  primary detection returns no onset and whose pre-playback-end energy region is not
  empty, the analysis of the row completes and runs the fallback: the noise floor is the
  75th percentile of the energy in the pre-playback-end region (the value of
  \<^verbatim>\<open>np.percentile\<close> on the frames before the end of playback, which lies at rank 75 of
  them), the dynamic threshold is \<open>max (threshold_db - 5) (noise_db + 6)\<close>, the reported
  onset and status are those of the same scan from the same guarded start with that
  threshold, \<^verbatim>\<open>fallback_used\<close> is true and the dynamic threshold is recorded; the threshold
  is never below \<open>noise_db + 6\<close>.
\<close>

theorem fallback_pass_after_failed_primary:
  assumes isf: "isfile ev (build_wav_path ev row)"
    and rd: "sf_read ev (build_wav_path ev row) = Inr (au, sample_rate)"
    and sr: "sample_rate \<noteq> 0"
    and roll: "rolling_energy_db (to_mono au) sample_rate frame_ms = Inr (energy_db, frame_length)"
    and pa: "py_float (str_to_float ev) (row_get row ''playback_end_ms'' (CFloat (Fin 0))) = Inr pa"
    and rs: "py_float (str_to_float ev) (row_get row ''recording_start_ms'' (CFloat (Fin 0))) = Inr rs"
    and pe: "max_zero (xsub pa rs) = Some playback_end_rel"
    and prim: "detect_onset_after energy_db sample_rate frame_length (playback_end_rel + guard_ms)
                 threshold_db min_frames = Inr None"
    and pre: "frames_before_playback_end energy_db sample_rate playback_end_rel \<noteq> []"
  shows "\<exists>res onset2 noise_db dynamic_threshold.
           analyze_row ev threshold_db frame_ms min_frames guard_ms row = Inr res
         \<and> noise_db
             = percentile (frames_before_playback_end energy_db sample_rate playback_end_rel) 75
         \<and> at_rank (frames_before_playback_end energy_db sample_rate playback_end_rel) 75 noise_db
         \<and> dynamic_threshold = max (threshold_db - 5) (noise_db + 6)
         \<and> detect_onset_after energy_db sample_rate frame_length (playback_end_rel + guard_ms)
             dynamic_threshold min_frames = Inr onset2
         \<and> res ''fallback_used'' = Some (CBool True)
         \<and> res ''dynamic_threshold_db'' = Some (CFloat (Fin dynamic_threshold))
         \<and> res ''onset_ms_from_recording_start''
             = Some (case onset2 of None \<Rightarrow> CNone | Some t \<Rightarrow> CFloat (Fin t))
         \<and> res ''status''
             = Some (CStr (case onset2 of None \<Rightarrow> ''no_speech_detected'' | Some t \<Rightarrow> ''ok''))
         \<and> noise_db + 6 \<le> dynamic_threshold"
proof -
  let ?region = "frames_before_playback_end energy_db sample_rate playback_end_rel"
  define noise_db where "noise_db = percentile ?region 75"
  define dynamic_threshold where "dynamic_threshold = max (threshold_db - 5) (noise_db + 6)"
  have region: "pre_region energy_db sample_rate playback_end_rel = ?region"
    by (rule pre_region_frames)
  have rank: "at_rank ?region 75 noise_db"
    unfolding noise_db_def by (rule percentile_at_rank[OF pre]) simp_all
  obtain onset2 where d2: "detect_onset_after energy_db sample_rate frame_length
      (playback_end_rel + guard_ms) dynamic_threshold min_frames = Inr onset2"
    using detect_onset_after_total[OF sr] by blast
  have ad: "analyze_detect energy_db sample_rate frame_length playback_end_rel threshold_db
              min_frames guard_ms = Inr (onset2, True, dynamic_threshold)"
    using prim pre d2
    unfolding analyze_detect_def Let_def region noise_db_def[symmetric]
      dynamic_threshold_def[symmetric]
    by simp
  let ?res = "finish_result (initial_result row (build_wav_path ev row)) energy_db
                playback_end_rel onset2 True dynamic_threshold"
  have ar: "analyze_row ev threshold_db frame_ms min_frames guard_ms row = Inr ?res"
    unfolding analyze_row_readable[OF isf rd] analyze_audio_def
    by (simp add: roll pa rs pe ad)
  have le: "noise_db + 6 \<le> dynamic_threshold" unfolding dynamic_threshold_def by simp
  have f: "?res ''fallback_used'' = Some (CBool True)"
    "?res ''dynamic_threshold_db'' = Some (CFloat (Fin dynamic_threshold))"
    "?res ''onset_ms_from_recording_start''
       = Some (case onset2 of None \<Rightarrow> CNone | Some t \<Rightarrow> CFloat (Fin t))"
    "?res ''status''
       = Some (CStr (case onset2 of None \<Rightarrow> ''no_speech_detected'' | Some t \<Rightarrow> ''ok''))"
    by (simp_all add: finish_result_fallback finish_result_dynamic finish_result_onset
          finish_result_status)
  from ar noise_db_def rank dynamic_threshold_def d2 f le show ?thesis by blast
qed

text \<open>
  The theorem at the example recording with playback leak, with the default threshold of
  -40 dB and four frames: the primary pass finds nothing after 4 ms, the region is the
  four frames before the end of playback, its 75th percentile is -50 dB (between the
  ranks -60 and -20), so the dynamic threshold is \<open>max (- 45) (- 44) = - 44\<close> dB, decided by
  the noise floor, and the fallback pass finds the onset at 4.5 ms.
\<close>

lemma energy_to_db_power:
  assumes "k \<le> 12"
  shows "energy_to_db (1 / 10 ^ k) = - 10 * real k"
proof -
  have "(10::real) ^ k \<le> 10 ^ 12" using assms by (intro power_increasing) simp_all
  then have "(1::real) / 10 ^ 12 \<le> 1 / 10 ^ k" by (intro divide_left_mono) simp_all
  then have m: "max (1 / 10 ^ k) (1 / 10 ^ 12 :: real) = 1 / 10 ^ k" by (simp add: max_def)
  have "log 10 ((10::real) ^ k) = real k * log 10 10" by (rule log_nat_power) simp
  then have "log 10 (1 / 10 ^ k) = - real k" by (simp add: log_divide)
  then show ?thesis unfolding energy_to_db_def m by simp
qed

lemma leak_energy:
  "rolling_energy_db [1 / 10, 1 / 10000, 1 / 1000, 1 / 100000, 1 / 100, 1 / 100, 1 / 100, 1 / 100]
     1000 1
   = Inr ([- 20, - 80, - 60, - 100, - 40, - 40, - 40, - 40], 1)"
  using energy_to_db_power[of 2] energy_to_db_power[of 8] energy_to_db_power[of 6]
    energy_to_db_power[of 10] energy_to_db_power[of 4]
  by (simp add: rolling_energy_db_def convolve_valid_def py_round_def Let_def upt_rec)

lemma leak_region:
  "frames_before_playback_end [- 20, - 80, - 60, - 100, - 40, - 40, - 40, - 40] 1000 4
     = [- 20, - 80, - 60, - 100]"
  by (simp add: frames_before_playback_end_def upt_rec)

lemma leak_noise: "percentile [- 20, - 80, - 60, - 100] 75 = - 50"
  by (simp add: percentile_def Let_def)

lemma leak_primary:
  "detect_onset_after [- 20, - 80, - 60, - 100, - 40, - 40, - 40, - 40] 1000 1 (4 + 0) (- 40) 4
     = Inr None"
  by (simp add: detect_onset_after_def start_index_def py_round_def scan_above.simps
        py_slice_def Let_def)

lemma leak_fallback:
  "detect_onset_after [- 20, - 80, - 60, - 100, - 40, - 40, - 40, - 40] 1000 1 (4 + 0) (- 44) 4
     = Inr (Some (9 / 2))"
  by (simp add: detect_onset_after_def start_index_def py_round_def scan_above.simps
        py_slice_def Let_def)

theorem fallback_pass_after_failed_primary_witness:
  "isfile (example_env leak_files) (build_wav_path (example_env leak_files) leak_row)
   \<and> sf_read (example_env leak_files) (build_wav_path (example_env leak_files) leak_row)
       = Inr (Mono [1 / 10, 1 / 10000, 1 / 1000, 1 / 100000, 1 / 100, 1 / 100, 1 / 100, 1 / 100],
              1000)
   \<and> (1000::int) \<noteq> 0
   \<and> rolling_energy_db
        (to_mono (Mono [1 / 10, 1 / 10000, 1 / 1000, 1 / 100000, 1 / 100, 1 / 100, 1 / 100, 1 / 100]))
        1000 1
       = Inr ([- 20, - 80, - 60, - 100, - 40, - 40, - 40, - 40], 1)
   \<and> max_zero (xsub (Fin 4) (Fin 0)) = Some 4
   \<and> detect_onset_after [- 20, - 80, - 60, - 100, - 40, - 40, - 40, - 40] 1000 1 (4 + 0) (- 40) 4
       = Inr None
   \<and> frames_before_playback_end [- 20, - 80, - 60, - 100, - 40, - 40, - 40, - 40] 1000 4
       = [- 20, - 80, - 60, - 100]
   \<and> (\<exists>res. analyze_row (example_env leak_files) (- 40) 1 4 0 leak_row = Inr res
          \<and> percentile [- 20, - 80, - 60, - 100] 75 = - 50
          \<and> at_rank [- 20, - 80, - 60, - 100] 75 (- 50)
          \<and> max (- 40 - 5) (- 50 + 6) = (- 44 :: real)
          \<and> detect_onset_after [- 20, - 80, - 60, - 100, - 40, - 40, - 40, - 40] 1000 1 (4 + 0)
               (- 44) 4 = Inr (Some (9 / 2))
          \<and> res ''fallback_used'' = Some (CBool True)
          \<and> res ''dynamic_threshold_db'' = Some (CFloat (Fin (- 44)))
          \<and> res ''onset_ms_from_recording_start'' = Some (CFloat (Fin (9 / 2)))
          \<and> res ''status'' = Some (CStr ''ok''))"
proof -
  let ?ev = "example_env leak_files"
  let ?e = "[- 20, - 80, - 60, - 100, - 40, - 40, - 40, - 40] :: real list"
  have isf: "isfile ?ev (build_wav_path ?ev leak_row)"
    by (simp add: example_env_def leak_files_def leak_row_def)
  have rd: "sf_read ?ev (build_wav_path ?ev leak_row)
              = Inr (Mono [1 / 10, 1 / 10000, 1 / 1000, 1 / 100000, 1 / 100, 1 / 100, 1 / 100,
                           1 / 100], 1000)"
    by (simp add: example_env_def leak_files_def leak_row_def)
  have sr: "(1000::int) \<noteq> 0" by simp
  have roll: "rolling_energy_db
                (to_mono (Mono [1 / 10, 1 / 10000, 1 / 1000, 1 / 100000, 1 / 100, 1 / 100, 1 / 100,
                                1 / 100])) 1000 1 = Inr (?e, 1)"
    by (simp add: leak_energy)
  have pa: "py_float (str_to_float ?ev) (row_get leak_row ''playback_end_ms'' (CFloat (Fin 0)))
              = Inr (Fin 4)"
    by (simp add: row_get_def leak_row_def)
  have rs: "py_float (str_to_float ?ev) (row_get leak_row ''recording_start_ms'' (CFloat (Fin 0)))
              = Inr (Fin 0)"
    by (simp add: row_get_def leak_row_def)
  have pe: "max_zero (xsub (Fin 4) (Fin 0)) = Some 4" by simp
  have pre: "frames_before_playback_end ?e 1000 4 \<noteq> []" by (simp add: leak_region)
  have dyn: "max (- 40 - 5) (- 50 + 6) = (- 44 :: real)" by simp
  from fallback_pass_after_failed_primary[OF isf rd sr roll pa rs pe leak_primary pre]
  obtain res onset2 noise_db dynamic_threshold where
    r: "analyze_row ?ev (- 40) 1 4 0 leak_row = Inr res"
    and n: "noise_db = percentile (frames_before_playback_end ?e 1000 4) 75"
    and k: "at_rank (frames_before_playback_end ?e 1000 4) 75 noise_db"
    and d: "dynamic_threshold = max (- 40 - 5) (noise_db + 6)"
    and o: "detect_onset_after ?e 1000 1 (4 + 0) dynamic_threshold 4 = Inr onset2"
    and f: "res ''fallback_used'' = Some (CBool True)"
      "res ''dynamic_threshold_db'' = Some (CFloat (Fin dynamic_threshold))"
      "res ''onset_ms_from_recording_start''
         = Some (case onset2 of None \<Rightarrow> CNone | Some t \<Rightarrow> CFloat (Fin t))"
      "res ''status''
         = Some (CStr (case onset2 of None \<Rightarrow> ''no_speech_detected'' | Some t \<Rightarrow> ''ok''))"
    by blast
  have n': "noise_db = - 50" unfolding n leak_region leak_noise ..
  have d': "dynamic_threshold = - 44" unfolding d n' by simp
  have o': "onset2 = Some (9 / 2)" using o unfolding d' leak_fallback by simp
  have k': "at_rank [- 20, - 80, - 60, - 100] 75 (- 50)" using k unfolding leak_region n' .
  have f': "res ''fallback_used'' = Some (CBool True)"
    "res ''dynamic_threshold_db'' = Some (CFloat (Fin (- 44)))"
    "res ''onset_ms_from_recording_start'' = Some (CFloat (Fin (9 / 2)))"
    "res ''status'' = Some (CStr ''ok'')"
    using f unfolding d' o' by simp_all
  have body: "\<exists>res. analyze_row ?ev (- 40) 1 4 0 leak_row = Inr res
          \<and> percentile [- 20, - 80, - 60, - 100] 75 = - 50
          \<and> at_rank [- 20, - 80, - 60, - 100] 75 (- 50)
          \<and> max (- 40 - 5) (- 50 + 6) = (- 44 :: real)
          \<and> detect_onset_after ?e 1000 1 (4 + 0) (- 44) 4 = Inr (Some (9 / 2))
          \<and> res ''fallback_used'' = Some (CBool True)
          \<and> res ''dynamic_threshold_db'' = Some (CFloat (Fin (- 44)))
          \<and> res ''onset_ms_from_recording_start'' = Some (CFloat (Fin (9 / 2)))
          \<and> res ''status'' = Some (CStr ''ok'')"
    using r leak_noise k' dyn leak_fallback f' by blast
  from isf rd sr roll pe leak_primary leak_region body show ?thesis by blast
qed

subsection \<open>C4: a silent recording\<close>

lemma scan_above_all_false:
  "\<forall>b\<in>set abv. \<not> b \<Longrightarrow> scan_above abv mf i = None"
proof (induction abv mf i rule: scan_above.induct)
  case (1 abv mf i)
  show ?case
  proof (cases "length abv \<le> i")
    case True
    then show ?thesis by (simp add: scan_above.simps[of abv mf i])
  next
    case False
    then have "\<not> abv ! i" using "1.prems" by (meson nth_mem not_le)
    then show ?thesis
      using False "1.IH"(1)[OF False _ "1.prems"] by (simp add: scan_above.simps[of abv mf i])
  qed
qed

lemma detect_onset_after_below:
  assumes "\<forall>x\<in>set energy_db. x \<le> threshold_db"
  shows "detect_onset_after energy_db sample_rate frame_length start_ms threshold_db min_frames
           = Inr None"
proof -
  have "\<forall>b\<in>set (map (\<lambda>e. threshold_db < e)
                   (drop (start_index energy_db sample_rate start_ms) energy_db)). \<not> b"
    using assms by (auto dest!: in_set_dropD)
  then show ?thesis
    unfolding detect_onset_after_def Let_def by (simp add: scan_above_all_false)
qed

lemma sum_list_all_zero:
  "(\<And>x. x \<in> set xs \<Longrightarrow> f x = 0) \<Longrightarrow> sum_list (map f xs) = (0::real)"
  by (induction xs) auto

lemma map_const_replicate:
  "(\<And>x. x \<in> set xs \<Longrightarrow> f x = c) \<Longrightarrow> map f xs = replicate (length xs) c"
  by (induction xs) auto

lemma convolve_valid_zero:
  assumes "zs \<noteq> []" "\<forall>x\<in>set zs. x = 0" "w \<noteq> []"
  shows "\<exists>n. 0 < n \<and> convolve_valid zs w = Inr (replicate n 0)"
proof (cases "length w \<le> length zs")
  case True
  have "(\<Sum>j\<leftarrow>[0..<length w]. zs ! (k + j) * w ! (length w - 1 - j)) = 0"
    if "k < length zs - length w + 1" for k
  proof -
    have "zs ! (k + j) = 0" if "j < length w" for j
      using assms(2) True that \<open>k < length zs - length w + 1\<close> by (simp add: nth_mem)
    then show ?thesis by (intro sum_list_all_zero) simp
  qed
  then have "map (\<lambda>k. \<Sum>j\<leftarrow>[0..<length w]. zs ! (k + j) * w ! (length w - 1 - j))
               [0..<length zs - length w + 1]
             = replicate (length [0..<length zs - length w + 1]) 0"
    by (intro map_const_replicate) (simp del: upt_Suc)
  then show ?thesis
    using True assms(1,3) unfolding convolve_valid_def Let_def
    by (intro exI[of _ "length [0..<length zs - length w + 1]"]) (simp del: upt_Suc)
next
  case False
  have "(\<Sum>j\<leftarrow>[0..<length zs]. w ! (k + j) * zs ! (length zs - 1 - j)) = 0" for k
  proof -
    have "zs ! (length zs - 1 - j) = 0" if "j < length zs" for j
      using assms(2) that by (simp add: nth_mem)
    then show ?thesis by (intro sum_list_all_zero) simp
  qed
  then have "map (\<lambda>k. \<Sum>j\<leftarrow>[0..<length zs]. w ! (k + j) * zs ! (length zs - 1 - j))
               [0..<length w - length zs + 1]
             = replicate (length [0..<length w - length zs + 1]) 0"
    by (intro map_const_replicate) (simp del: upt_Suc)
  then show ?thesis
    using False assms(1,3) unfolding convolve_valid_def Let_def
    by (intro exI[of _ "length [0..<length w - length zs + 1]"]) (simp del: upt_Suc)
qed

lemma rolling_energy_db_silence:
  assumes "signal \<noteq> []" "\<forall>x\<in>set signal. x = 0"
  shows "\<exists>n L. 0 < n \<and> rolling_energy_db signal sample_rate frame_ms
                     = Inr (replicate n (- 120), L)"
proof -
  let ?L = "max 1 (py_round (of_int sample_rate * frame_ms / 1000))"
  have w: "replicate (nat ?L) (1 / of_int ?L :: real) \<noteq> []" by simp
  have z: "map (\<lambda>x. x * x) signal \<noteq> []" "\<forall>x\<in>set (map (\<lambda>x. x * x) signal). x = 0"
    using assms by auto
  obtain n where n: "0 < n"
    "convolve_valid (map (\<lambda>x. x * x) signal) (replicate (nat ?L) (1 / of_int ?L)) = Inr (replicate n 0)"
    using convolve_valid_zero[OF z w] by blast
  have "rolling_energy_db signal sample_rate frame_ms = Inr (replicate n (- 120), ?L)"
    unfolding rolling_energy_db_def Let_def n(2) by (simp add: energy_to_db_zero)
  then show ?thesis using n(1) by blast
qed

lemma percentile_const:
  assumes "0 < n" "0 \<le> q" "q \<le> 100"
  shows "percentile (replicate n c) q = c"
proof -
  have s: "sort (replicate n c) = replicate n c"
    by (simp add: sorted_sort_id sorted_replicate)
  let ?h = "q / 100 * real (n - 1)"
  have "?h \<le> 1 * real (n - 1)"
    using assms by (intro mult_right_mono) auto
  then have "\<lfloor>?h\<rfloor> \<le> int (n - 1)" by (simp add: floor_le_iff)
  then have lo: "nat \<lfloor>?h\<rfloor> < n" using assms(1) by linarith
  have hi: "min (nat \<lfloor>?h\<rfloor> + 1) (n - 1) < n" using assms(1) by simp
  show ?thesis
    unfolding percentile_def Let_def s using lo hi by simp
qed

lemma pre_region_replicate:
  "0 < n \<Longrightarrow> \<exists>k. 0 < k \<and> pre_region (replicate n c) sr pe = replicate k c"
  unfolding pre_region_def Let_def
  by (rule exI[of _ "min (if 1 < pe / 1000 * of_int sr then nat \<lfloor>pe / 1000 * of_int sr\<rfloor> else 1) n"])
     (auto simp: min_def)

text \<open>
  Claim C4, for a silent recording that has at least one sample, a static threshold of
  at least -120 dB (the default is -40 dB), and a row whose \<^verbatim>\<open>playback_end_ms\<close> and
  \<^verbatim>\<open>recording_start_ms\<close> cells convert to floats (an absent cell counts as 0) with a
  difference that is not \<open>+inf\<close>: every energy value is -120 dB (the floor inside the
  energy computation), neither the primary pass nor the fallback pass, whose threshold is
  at least -114 dB, reports an onset, so the row's status is \<^verbatim>\<open>no_speech_detected\<close> and
  its onset and latency stay none. The samples are those of the mono signal analysed
  (the channel mean of a multi-channel file). For a cell that does not convert
  \<^verbatim>\<open>float(...)\<close> raises, and for a difference of \<open>+inf\<close> \<^verbatim>\<open>int(round(...))\<close> does: the row has
  no record then.
\<close>

theorem silence_is_no_speech:
  assumes isf: "isfile ev (build_wav_path ev row)"
    and rd: "sf_read ev (build_wav_path ev row) = Inr (au, sample_rate)"
    and nonempty: "to_mono au \<noteq> []"
    and silent: "\<forall>x\<in>set (to_mono au). x = 0"
    and thr: "- 120 \<le> threshold_db"
    and pa: "py_float (str_to_float ev) (row_get row ''playback_end_ms'' (CFloat (Fin 0))) = Inr pa"
    and rs: "py_float (str_to_float ev) (row_get row ''recording_start_ms'' (CFloat (Fin 0))) = Inr rs"
    and pe: "max_zero (xsub pa rs) = Some playback_end_rel"
  shows "\<exists>res. analyze_row ev threshold_db frame_ms min_frames guard_ms row = Inr res
            \<and> res ''status'' = Some (CStr ''no_speech_detected'')
            \<and> res ''onset_ms_from_recording_start'' = Some CNone
            \<and> res ''latency_ms_from_playback_end'' = Some CNone"
proof -
  obtain n L where n: "0 < n"
    and roll: "rolling_energy_db (to_mono au) sample_rate frame_ms = Inr (replicate n (- 120), L)"
    using rolling_energy_db_silence[OF nonempty silent] by blast
  let ?e = "replicate n (- 120 :: real)"
  have prim: "detect_onset_after ?e sample_rate L (playback_end_rel + guard_ms) threshold_db
                min_frames = Inr None"
    using thr by (intro detect_onset_after_below) simp
  obtain k where k: "0 < k" "pre_region ?e sample_rate playback_end_rel = replicate k (- 120)"
    using pre_region_replicate[OF n] by blast
  have noise: "percentile (pre_region ?e sample_rate playback_end_rel) 75 = - 120"
    unfolding k(2) using k(1) by (intro percentile_const) simp_all
  let ?dyn = "max (threshold_db - 5) (- 120 + 6)"
  have fb: "detect_onset_after ?e sample_rate L (playback_end_rel + guard_ms) ?dyn min_frames
              = Inr None"
    by (intro detect_onset_after_below) (simp add: le_max_iff_disj)
  have ad: "analyze_detect ?e sample_rate L playback_end_rel threshold_db min_frames guard_ms
              = Inr (None, True, ?dyn)"
    unfolding analyze_detect_def Let_def prim noise using k fb by simp
  let ?res = "finish_result (initial_result row (build_wav_path ev row)) ?e playback_end_rel
                None True ?dyn"
  have ar: "analyze_row ev threshold_db frame_ms min_frames guard_ms row = Inr ?res"
    unfolding analyze_row_readable[OF isf rd] analyze_audio_def
    by (simp add: roll pa rs pe ad)
  show ?thesis
    by (rule exI[of _ ?res])
      (simp add: ar finish_result_status finish_result_onset finish_result_latency)
qed

text \<open>The theorem at four samples of silence with the default options.\<close>

theorem silence_is_no_speech_witness:
  "isfile (example_env silent_files) (build_wav_path (example_env silent_files) silent_row)
   \<and> sf_read (example_env silent_files) (build_wav_path (example_env silent_files) silent_row)
       = Inr (Mono [0, 0, 0, 0], 1000)
   \<and> to_mono (Mono [0, 0, 0, 0]) \<noteq> []
   \<and> set (to_mono (Mono [0, 0, 0, 0])) = {0}
   \<and> (- 120 :: real) \<le> - 40
   \<and> max_zero (xsub (Fin 0) (Fin 0)) = Some 0
   \<and> (\<exists>res. analyze_row (example_env silent_files) (- 40) 10 4 50 silent_row = Inr res
            \<and> res ''status'' = Some (CStr ''no_speech_detected'')
            \<and> res ''onset_ms_from_recording_start'' = Some CNone
            \<and> res ''latency_ms_from_playback_end'' = Some CNone)"
proof -
  let ?ev = "example_env silent_files"
  have isf: "isfile ?ev (build_wav_path ?ev silent_row)"
    by (simp add: example_env_def silent_files_def silent_row_def)
  have rd: "sf_read ?ev (build_wav_path ?ev silent_row) = Inr (Mono [0, 0, 0, 0], 1000)"
    by (simp add: example_env_def silent_files_def silent_row_def)
  have ne: "to_mono (Mono [0, 0, 0, 0]) \<noteq> []" by simp
  have sl: "\<forall>x\<in>set (to_mono (Mono [0, 0, 0, 0])). x = 0" by simp
  have thr: "(- 120 :: real) \<le> - 40" by simp
  have pa: "py_float (str_to_float ?ev) (row_get silent_row ''playback_end_ms'' (CFloat (Fin 0)))
              = Inr (Fin 0)"
    by (simp add: row_get_def silent_row_def)
  have rs: "py_float (str_to_float ?ev) (row_get silent_row ''recording_start_ms'' (CFloat (Fin 0)))
              = Inr (Fin 0)"
    by (simp add: row_get_def silent_row_def)
  have pe: "max_zero (xsub (Fin 0) (Fin 0)) = Some 0" by simp
  note inst = silence_is_no_speech[OF isf rd ne sl thr pa rs pe, of 10 4 50]
  show ?thesis using isf rd thr inst by simp
qed

text \<open>
  The claim as stated covers every silent recording whatever the options. With
  \<^verbatim>\<open>--threshold-db -130\<close> the floor of -120 dB lies above the static threshold, and the
  primary pass reports an onset at 0.5 ms on four samples of silence: the status stays
  \<^verbatim>\<open>ok\<close> and a latency is reported.
\<close>

lemma silent_energy:
  "rolling_energy_db [0, 0, 0, 0] 1000 1 = Inr ([- 120, - 120, - 120, - 120], 1)"
  by (simp add: rolling_energy_db_def convolve_valid_def py_round_def Let_def
        energy_to_db_zero upt_rec)

lemma silent_detect_low_threshold:
  "detect_onset_after [- 120, - 120, - 120, - 120] 1000 1 0 (- 130) 4 = Inr (Some (1 / 2))"
  by (simp add: detect_onset_after_def start_index_def py_round_def scan_above.simps
        py_slice_def Let_def)

theorem silence_low_threshold_counterexample:
  "sf_read (example_env silent_files) (build_wav_path (example_env silent_files) silent_row)
       = Inr (Mono [0, 0, 0, 0], 1000)
   \<and> analyze_row (example_env silent_files) (- 130) 1 4 0 silent_row
       = Inr (finish_result (initial_result silent_row ''s.wav'')
                [- 120, - 120, - 120, - 120] 0 (Some (1 / 2)) False (- 130))
   \<and> finish_result (initial_result silent_row ''s.wav'')
        [- 120, - 120, - 120, - 120] 0 (Some (1 / 2)) False (- 130) ''status''
       = Some (CStr ''ok'')
   \<and> finish_result (initial_result silent_row ''s.wav'')
        [- 120, - 120, - 120, - 120] 0 (Some (1 / 2)) False (- 130) ''onset_ms_from_recording_start''
       = Some (CFloat (Fin (1 / 2)))
   \<and> finish_result (initial_result silent_row ''s.wav'')
        [- 120, - 120, - 120, - 120] 0 (Some (1 / 2)) False (- 130) ''latency_ms_from_playback_end''
       = Some (CFloat (Fin (1 / 2)))"
proof -
  have ad: "analyze_detect [- 120, - 120, - 120, - 120] 1000 1 0 (- 130) 4 0
              = Inr (Some (1 / 2), False, - 130)"
    by (simp add: analyze_detect_def silent_detect_low_threshold Let_def)
  have "analyze_row (example_env silent_files) (- 130) 1 4 0 silent_row
       = Inr (finish_result (initial_result silent_row ''s.wav'')
                [- 120, - 120, - 120, - 120] 0 (Some (1 / 2)) False (- 130))"
    by (simp add: analyze_row_def Let_def example_env_def silent_files_def silent_row_def
          analyze_audio_def silent_energy row_get_def ad)
  then show ?thesis
    by (simp add: finish_result_status finish_result_onset finish_result_latency
          example_env_def silent_files_def silent_row_def)
qed

subsection \<open>The loop over the table\<close>

lemma analyze_rows_append:
  "analyze_rows ev thr fms mf g (xs @ ys) =
     (case analyze_rows ev thr fms mf g xs of
        Inl e \<Rightarrow> Inl e
      | Inr a \<Rightarrow> (case analyze_rows ev thr fms mf g ys of
                    Inl e \<Rightarrow> Inl e
                  | Inr b \<Rightarrow> Inr (a @ b)))"
  by (induction xs) (auto split: sum.splits)

lemma analyze_rows_Inr:
  "analyze_rows ev thr fms mf g df = Inr out \<Longrightarrow>
     length out = length df \<and> (\<forall>i<length df. analyze_row ev thr fms mf g (df ! i) = Inr (out ! i))"
proof (induction df arbitrary: out)
  case Nil
  then show ?case by simp
next
  case (Cons row rows)
  then obtain res recs where r: "analyze_row ev thr fms mf g row = Inr res"
    and rs: "analyze_rows ev thr fms mf g rows = Inr recs" and out: "out = res # recs"
    by (auto split: sum.splits)
  have "length recs = length rows"
    and nth: "\<And>i. i < length rows \<Longrightarrow> analyze_row ev thr fms mf g (rows ! i) = Inr (recs ! i)"
    using Cons.IH[OF rs] by auto
  then show ?case using r out by (auto simp: nth_Cons split: nat.splits)
qed

lemma initial_result_other:
  "k \<notin> set detection_fields \<Longrightarrow> initial_result row p k = row k"
  by (simp add: initial_result_def detection_fields_def)

lemma finish_result_other:
  "k \<notin> set detection_fields \<Longrightarrow> finish_result result e pe ons fb dyn k = result k"
  by (simp add: finish_result_def detection_fields_def Let_def split: option.splits)

lemma analyze_row_other:
  assumes "analyze_row ev thr fms mf g row = Inr res" "k \<notin> set detection_fields"
  shows "res k = row k"
proof (cases "isfile ev (build_wav_path ev row)")
  case False
  then show ?thesis
    using assms analyze_row_missing[OF False, of thr fms mf g]
    by (auto simp: initial_result_other detection_fields_def)
next
  case isf: True
  show ?thesis
  proof (cases "sf_read ev (build_wav_path ev row)")
    case (Inl err)
    then show ?thesis
      using assms analyze_row_read_error[OF isf Inl, of thr fms mf g]
      by (auto simp: initial_result_other detection_fields_def)
  next
    case (Inr r)
    obtain au sr where r: "r = (au, sr)" by (cases r)
    have "analyze_audio ev thr fms mf g row (initial_result row (build_wav_path ev row))
            (to_mono au) sr = Inr res"
      using assms(1) analyze_row_readable[OF isf Inr[unfolded r]] by simp
    then obtain e pe ons fb dyn where
      "res = finish_result (initial_result row (build_wav_path ev row)) e pe ons fb dyn"
      by (rule analyze_audio_Inr)
    then show ?thesis using assms(2) by (simp add: finish_result_other initial_result_other)
  qed
qed

subsection \<open>C5: missing and unreadable recordings\<close>

text \<open>
  Claim C5: a row whose WAV file does not exist is given the status \<^verbatim>\<open>missing\<close> and
  raises nothing; a row whose file cannot be read is given the status \<^verbatim>\<open>read_error\<close>
  with the error's message in its note. In both cases the loop goes on: the summary
  holds the records of the rows before it, the record of this row, and the records of
  the rows after it, each as that row's own analysis gives it.
\<close>

theorem missing_or_unreadable_row_continues:
  assumes before: "analyze_rows ev threshold_db frame_ms min_frames guard_ms rows_before = Inr recs1"
    and after: "analyze_rows ev threshold_db frame_ms min_frames guard_ms rows_after = Inr recs2"
    and bad: "\<not> isfile ev (build_wav_path ev row) \<or> sf_read ev (build_wav_path ev row) = Inl err"
  shows "\<exists>res. analyze_row ev threshold_db frame_ms min_frames guard_ms row = Inr res
            \<and> analyze ev threshold_db frame_ms min_frames guard_ms (rows_before @ row # rows_after)
                = Inr (recs1 @ res # recs2)
            \<and> (\<not> isfile ev (build_wav_path ev row) \<longrightarrow>
                  res ''status'' = Some (CStr ''missing'')
                \<and> res ''note'' = Some (CStr ''WAV not found''))
            \<and> (isfile ev (build_wav_path ev row) \<longrightarrow>
                  res ''status'' = Some (CStr ''read_error'')
                \<and> res ''note'' = Some (CStr (''read error: '' @ err)))"
proof -
  let ?p = "build_wav_path ev row"
  let ?res = "if \<not> isfile ev ?p
      then (initial_result row ?p)
             (''status'' \<mapsto> CStr ''missing'', ''note'' \<mapsto> CStr ''WAV not found'')
      else (initial_result row ?p)
             (''status'' \<mapsto> CStr ''read_error'', ''note'' \<mapsto> CStr (''read error: '' @ err))"
  have r: "analyze_row ev threshold_db frame_ms min_frames guard_ms row = Inr ?res"
    using bad analyze_row_missing[of ev row] analyze_row_read_error[of ev row err]
    by (cases "isfile ev ?p") auto
  have "analyze_rows ev threshold_db frame_ms min_frames guard_ms (rows_before @ row # rows_after)
          = Inr (recs1 @ ?res # recs2)"
    unfolding analyze_rows_append using before after r by simp
  then have a: "analyze ev threshold_db frame_ms min_frames guard_ms (rows_before @ row # rows_after)
          = Inr (recs1 @ ?res # recs2)"
    by (simp add: analyze_def)
  show ?thesis
    using r a by (intro exI[of _ ?res]) (simp add: initial_result_def)
qed

text \<open>The example table, analysed with 1 ms frames and no guard.\<close>

lemma mixed_gone:
  "analyze_row (example_env mixed_files) (- 40) 1 4 0 gone_row
     = Inr ((initial_result gone_row ''gone.wav'')
              (''status'' \<mapsto> CStr ''missing'', ''note'' \<mapsto> CStr ''WAV not found''))"
  by (simp add: analyze_row_def Let_def example_env_def mixed_files_def gone_row_def)

lemma mixed_bad:
  "analyze_row (example_env mixed_files) (- 40) 1 4 0 bad_row
     = Inr ((initial_result bad_row ''bad.wav'')
              (''status'' \<mapsto> CStr ''read_error'',
               ''note'' \<mapsto> CStr ''read error: unknown format''))"
  by (simp add: analyze_row_def Let_def example_env_def mixed_files_def bad_row_def)

lemma mixed_speech:
  "analyze_row (example_env mixed_files) (- 40) 1 4 0 speech_row
     = Inr (finish_result (initial_result speech_row ''a.wav'') [- 120, 0, 0, 0, 0] 0
              (Some (3 / 2)) False (- 40))"
  by (simp add: analyze_row_def Let_def example_env_def mixed_files_def speech_row_def
        analyze_audio_def speech_energy row_get_def speech_analyze_detect)

text \<open>
  The theorem at the example table: the unreadable second recording sits between a
  missing one and a good one, and all three rows have their record.
\<close>

theorem missing_or_unreadable_row_continues_witness:
  "analyze_rows (example_env mixed_files) (- 40) 1 4 0 [gone_row]
     = Inr [(initial_result gone_row ''gone.wav'')
              (''status'' \<mapsto> CStr ''missing'', ''note'' \<mapsto> CStr ''WAV not found'')]
   \<and> analyze_rows (example_env mixed_files) (- 40) 1 4 0 [speech_row]
     = Inr [finish_result (initial_result speech_row ''a.wav'') [- 120, 0, 0, 0, 0] 0
              (Some (3 / 2)) False (- 40)]
   \<and> isfile (example_env mixed_files) (build_wav_path (example_env mixed_files) bad_row)
   \<and> sf_read (example_env mixed_files) (build_wav_path (example_env mixed_files) bad_row)
       = Inl ''unknown format''
   \<and> (\<exists>res. analyze_row (example_env mixed_files) (- 40) 1 4 0 bad_row = Inr res
          \<and> analyze (example_env mixed_files) (- 40) 1 4 0 ([gone_row] @ bad_row # [speech_row])
              = Inr ([(initial_result gone_row ''gone.wav'')
                        (''status'' \<mapsto> CStr ''missing'', ''note'' \<mapsto> CStr ''WAV not found'')]
                     @ res
                     # [finish_result (initial_result speech_row ''a.wav'') [- 120, 0, 0, 0, 0] 0
                          (Some (3 / 2)) False (- 40)])
          \<and> res ''status'' = Some (CStr ''read_error'')
          \<and> res ''note'' = Some (CStr ''read error: unknown format''))"
proof -
  let ?ev = "example_env mixed_files"
  have b: "analyze_rows ?ev (- 40) 1 4 0 [gone_row]
     = Inr [(initial_result gone_row ''gone.wav'')
              (''status'' \<mapsto> CStr ''missing'', ''note'' \<mapsto> CStr ''WAV not found'')]"
    by (simp add: mixed_gone)
  have a: "analyze_rows ?ev (- 40) 1 4 0 [speech_row]
     = Inr [finish_result (initial_result speech_row ''a.wav'') [- 120, 0, 0, 0, 0] 0
              (Some (3 / 2)) False (- 40)]"
    by (simp add: mixed_speech)
  have isf: "isfile ?ev (build_wav_path ?ev bad_row)"
    by (simp add: example_env_def mixed_files_def bad_row_def)
  have rd: "sf_read ?ev (build_wav_path ?ev bad_row) = Inl ''unknown format''"
    by (simp add: example_env_def mixed_files_def bad_row_def)
  have bad: "\<not> isfile ?ev (build_wav_path ?ev bad_row)
             \<or> sf_read ?ev (build_wav_path ?ev bad_row) = Inl ''unknown format''"
    using rd by simp
  note inst = missing_or_unreadable_row_continues[OF b a bad]
  show ?thesis using a b isf rd inst by auto
qed

subsection \<open>C9: one output row per input row, in input order\<close>

text \<open>
  Claim C9, as the code has it: a summary returned by \<^verbatim>\<open>analyze\<close> has exactly one row per
  input row, the \<open>i\<close>-th output row is the record of the \<open>i\<close>-th input row, and it keeps
  every field of that input row whose name is not one of the detection fields.
\<close>

theorem analyze_one_record_per_row:
  assumes "analyze ev threshold_db frame_ms min_frames guard_ms df = Inr out"
  shows "length out = length df
       \<and> (\<forall>i<length df.
             analyze_row ev threshold_db frame_ms min_frames guard_ms (df ! i) = Inr (out ! i)
           \<and> (\<forall>k. k \<notin> set detection_fields \<longrightarrow> (out ! i) k = (df ! i) k))"
proof -
  have rows: "analyze_rows ev threshold_db frame_ms min_frames guard_ms df = Inr out"
    using assms by (auto simp: analyze_def split: sum.splits if_splits)
  have len: "length out = length df"
    and nth: "\<And>i. i < length df \<Longrightarrow>
                analyze_row ev threshold_db frame_ms min_frames guard_ms (df ! i) = Inr (out ! i)"
    using analyze_rows_Inr[OF rows] by auto
  show ?thesis using len nth analyze_row_other by blast
qed

text \<open>
  The theorem at the example table: three rows in, three rows out, the trial number of
  the first row and the file name of the third still in place.
\<close>

theorem analyze_one_record_per_row_witness:
  "analyze (example_env mixed_files) (- 40) 1 4 0 [gone_row, bad_row, speech_row]
     = Inr [(initial_result gone_row ''gone.wav'')
              (''status'' \<mapsto> CStr ''missing'', ''note'' \<mapsto> CStr ''WAV not found''),
            (initial_result bad_row ''bad.wav'')
              (''status'' \<mapsto> CStr ''read_error'',
               ''note'' \<mapsto> CStr ''read error: unknown format''),
            finish_result (initial_result speech_row ''a.wav'') [- 120, 0, 0, 0, 0] 0
              (Some (3 / 2)) False (- 40)]
   \<and> ((initial_result gone_row ''gone.wav'')
         (''status'' \<mapsto> CStr ''missing'', ''note'' \<mapsto> CStr ''WAV not found'')) ''trial''
       = gone_row ''trial''
   \<and> gone_row ''trial'' = Some (CFloat (Fin 1))
   \<and> (finish_result (initial_result speech_row ''a.wav'') [- 120, 0, 0, 0, 0] 0
         (Some (3 / 2)) False (- 40)) ''recording_file''
       = Some (CStr ''a.wav'')"
proof -
  let ?df = "[gone_row, bad_row, speech_row]"
  let ?out = "[(initial_result gone_row ''gone.wav'')
              (''status'' \<mapsto> CStr ''missing'', ''note'' \<mapsto> CStr ''WAV not found''),
            (initial_result bad_row ''bad.wav'')
              (''status'' \<mapsto> CStr ''read_error'',
               ''note'' \<mapsto> CStr ''read error: unknown format''),
            finish_result (initial_result speech_row ''a.wav'') [- 120, 0, 0, 0, 0] 0
              (Some (3 / 2)) False (- 40)]"
  have a: "analyze (example_env mixed_files) (- 40) 1 4 0 ?df = Inr ?out"
    by (simp add: analyze_def mixed_gone mixed_bad mixed_speech)
  note inst = analyze_one_record_per_row[OF a]
  have k1: "''trial'' \<notin> set detection_fields" and k2: "''recording_file'' \<notin> set detection_fields"
    by (simp_all add: detection_fields_def)
  have "(?out ! 0) ''trial'' = (?df ! 0) ''trial''"
    using inst k1 by (metis length_Cons zero_less_Suc)
  moreover have "(?out ! 2) ''recording_file'' = (?df ! 2) ''recording_file''"
    using inst k2 by (metis length_Cons lessI numeral_2_eq_2 Suc_less_eq zero_less_Suc)
  ultimately show ?thesis
    using a by (simp add: gone_row_def speech_row_def)
qed

text \<open>
  The claim as stated promises every original field. A table with a column named like a
  detection field loses it: \<^verbatim>\<open>result.update\<close> overwrites the row's own \<^verbatim>\<open>note\<close> with the
  empty note of a successful detection.
\<close>

theorem analyze_overwrites_note_counterexample:
  "noted_row ''note'' = Some (CStr ''coughed'')
   \<and> analyze (example_env speech_files) (- 40) 1 4 0 [noted_row]
       = Inr [finish_result (initial_result noted_row ''a.wav'') [- 120, 0, 0, 0, 0] 0
                (Some (3 / 2)) False (- 40)]
   \<and> (finish_result (initial_result noted_row ''a.wav'') [- 120, 0, 0, 0, 0] 0
         (Some (3 / 2)) False (- 40)) ''note'' = Some (CStr [])"
proof -
  have "analyze_row (example_env speech_files) (- 40) 1 4 0 noted_row
     = Inr (finish_result (initial_result noted_row ''a.wav'') [- 120, 0, 0, 0, 0] 0
              (Some (3 / 2)) False (- 40))"
    by (simp add: analyze_row_def Let_def example_env_def speech_files_def noted_row_def
          analyze_audio_def speech_energy row_get_def speech_analyze_detect)
  then show ?thesis
    by (simp add: analyze_def noted_row_def finish_result_def Let_def)
qed

section \<open>Verified properties of the trial orchestrator\<close>

subsection \<open>What one trial appends to the log\<close>

text \<open>
  Each step of \<^verbatim>\<open>run_trial\<close> only appends to the log; the lemmas below say which entries,
  and \<open>run_trial_log\<close> puts them together: a returned trial has appended its
  \<^verbatim>\<open>trial_start\<close> entry, then entries of other types of which at most one is an
  \<^verbatim>\<open>audio_playback_end\<close>, then, if it completed, its \<^verbatim>\<open>trial_end\<close> entry.
\<close>

lemma count_type_Cons:
  "count_type ty (e # es) = (if event_type e = ty then 1 else 0) + count_type ty es"
  by (simp add: count_type_def)

lemma count_type_append:
  "count_type ty (xs @ ys) = count_type ty xs + count_type ty ys"
  by (simp add: count_type_def)

lemma make_event_simps [simp]:
  "event_type (make_event st ty n t d) = ty"
  "trial (make_event st ty n t d) = n"
  "onset (make_event st ty n t d) = relative_time st t"
  by (simp_all add: make_event_def)

lemma log_event_simps [simp]:
  "detailed_log (log_event st ev) = detailed_log st @ [ev]"
  "trigger_time (log_event st ev) = trigger_time st"
  "audio_available (log_event st ev) = audio_available st"
  "playback_available (log_event st ev) = playback_available st"
  "rec_calls (log_event st ev) = rec_calls st"
  by (simp_all add: log_event_def)

lemma relative_time_cong:
  "trigger_time st' = trigger_time st \<Longrightarrow> relative_time st' t = relative_time st t"
  by (simp add: relative_time_def)

lemma relative_time_mono:
  "a \<le> b \<Longrightarrow> relative_time st a \<le> relative_time st b"
  by (simp add: relative_time_def split: option.splits)

lemma stimulus_loop_log:
  assumes "stimulus_loop s ch n tks st logged et = Some r"
  shows "\<exists>st' evs. (r = Interrupted st' \<or> (\<exists>logged' et'. r = Completed st' logged' et'
                        \<and> (et' = None \<longrightarrow> et = None \<and> evs = [])))
           \<and> detailed_log st' = detailed_log st @ evs
           \<and> trigger_time st' = trigger_time st
           \<and> audio_available st' = audio_available st
           \<and> rec_calls st' = rec_calls st
           \<and> (\<forall>e\<in>set evs. event_type e = audio_playback_end \<and> trial e = n)
           \<and> length evs \<le> (if logged then 0 else 1)"
  using assms
proof (induction tks arbitrary: st logged et)
  case Nil
  then show ?case by simp
next
  case (Cons tk tks)
  show ?case
  proof (cases "\<not> (tick_now tk - s < FIXED_STIMULUS_TIME)")
    case True
    then have "r = Completed st logged et" using Cons.prems by simp
    then show ?thesis by (intro exI[of _ st] exI[of _ "[]"]) simp
  next
    case run: False
    show ?thesis
    proof (cases "abort_requested (tick_events tk)")
      case True
      then have "r = Interrupted st" using Cons.prems run by simp
      then show ?thesis by (intro exI[of _ st] exI[of _ "[]"]) simp
    next
      case noabort: False
      show ?thesis
      proof (cases "ch \<and> \<not> logged \<and> \<not> tick_busy tk")
        case True
        let ?ev = "make_event st audio_playback_end n (tick_end_time tk) (Some 0)"
        have "stimulus_loop s ch n tks (log_event st ?ev) True (Some (tick_end_time tk)) = Some r"
          using Cons.prems run noabort True by simp
        from Cons.IH[OF this] obtain st' evs where
          r: "r = Interrupted st' \<or> (\<exists>logged' et'. r = Completed st' logged' et'
                \<and> (et' = None \<longrightarrow> Some (tick_end_time tk) = None \<and> evs = []))"
          and rest: "detailed_log st' = detailed_log (log_event st ?ev) @ evs"
            "trigger_time st' = trigger_time (log_event st ?ev)"
            "audio_available st' = audio_available (log_event st ?ev)"
            "rec_calls st' = rec_calls (log_event st ?ev)"
            "length evs \<le> (if True then 0 else 1)"
          by blast
        have evs: "evs = []" using rest(5) by simp
        show ?thesis
          using r rest(1-4) True unfolding evs
          by (intro exI[of _ st'] exI[of _ "[?ev]"]) auto
      next
        case False
        then have "stimulus_loop s ch n tks st logged et = Some r"
          using Cons.prems run noabort by auto
        from Cons.IH[OF this] show ?thesis .
      qed
    qed
  qed
qed

lemma start_recording_log:
  assumes "start_recording st n w = (st', recording)"
  shows "\<exists>evs. detailed_log st' = detailed_log st @ evs
           \<and> (\<forall>e\<in>set evs. event_type e = audio_recording_start \<and> trial e = n)
           \<and> trigger_time st' = trigger_time st
           \<and> playback_available st' = playback_available st
           \<and> (\<not> audio_available st \<longrightarrow> \<not> audio_available st' \<and> rec_calls st' = rec_calls st)
           \<and> (audio_available st' \<longrightarrow> audio_available st)
           \<and> (audio_available st \<and> (\<exists>err. w_rec_start w = RecRaised err) \<longrightarrow> \<not> audio_available st')"
proof (cases "audio_available st")
  case False
  then have "st' = st" using assms by (simp add: start_recording_def)
  then show ?thesis using False by (intro exI[of _ "[]"]) simp
next
  case True
  show ?thesis
  proof (cases "w_rec_start w")
    case (RecStarted t)
    then have "st' = log_event (st\<lparr>rec_calls := rec_calls st @ [n]\<rparr>)
                       (make_event st audio_recording_start n t (Some FIXED_STIMULUS_TIME))"
      using assms True by (simp add: start_recording_def)
    then show ?thesis
      using True RecStarted
      by (intro exI[of _ "[make_event st audio_recording_start n t (Some FIXED_STIMULUS_TIME)]"])
         simp
  next
    case (RecRaised err)
    then have "st' = st\<lparr>rec_calls := rec_calls st @ [n], audio_available := False,
                        audio_error := Some err\<rparr>"
      using assms True by (simp add: start_recording_def)
    then show ?thesis using True by (intro exI[of _ "[]"]) simp
  qed
qed

lemma start_playback_log:
  assumes "start_playback st n w = (st', ch, pst)"
  shows "\<exists>evs. detailed_log st' = detailed_log st @ evs
           \<and> (\<forall>e\<in>set evs. event_type e = audio_playback_start \<and> trial e = n)
           \<and> trigger_time st' = trigger_time st
           \<and> audio_available st' = audio_available st
           \<and> rec_calls st' = rec_calls st"
proof -
  have "st' = st \<or> (\<exists>t d. st' = log_event st (make_event st audio_playback_start n t d))"
    using assms unfolding start_playback_def Let_def
    by (auto split: option.splits play_start.splits if_splits)
  then show ?thesis
  proof
    assume "st' = st"
    then show ?thesis by (intro exI[of _ "[]"]) simp
  next
    assume "\<exists>t d. st' = log_event st (make_event st audio_playback_start n t d)"
    then obtain t d where "st' = log_event st (make_event st audio_playback_start n t d)" by blast
    then show ?thesis
      by (intro exI[of _ "[make_event st audio_playback_start n t d]"]) simp
  qed
qed

lemma begin_trial_log:
  assumes "begin_trial st n w = (st4, recording, ch, pst)"
  shows "\<exists>mid. detailed_log st4
                 = detailed_log st @ make_event st trial_start n (w_trial_start w) None # mid
           \<and> (\<forall>e\<in>set mid. event_type e \<in> {audio_recording_start, audio_playback_start, prompt_onset}
                           \<and> trial e = n)
           \<and> trigger_time st4 = trigger_time st
           \<and> (\<not> audio_available st \<longrightarrow> \<not> audio_available st4 \<and> rec_calls st4 = rec_calls st)
           \<and> (audio_available st4 \<longrightarrow> audio_available st)
           \<and> (audio_available st \<and> (\<exists>err. w_rec_start w = RecRaised err) \<longrightarrow> \<not> audio_available st4)"
proof -
  let ?ts = "make_event st trial_start n (w_trial_start w) None"
  let ?st1 = "log_event st ?ts"
  obtain st2 r where sr: "start_recording ?st1 n w = (st2, r)" by (cases "start_recording ?st1 n w")
  obtain st3 c p where sp: "start_playback st2 n w = (st3, c, p)"
    by (cases "start_playback st2 n w") auto
  let ?po = "make_event st3 prompt_onset n (w_prompt_onset w) (Some FIXED_STIMULUS_TIME)"
  have st4: "st4 = log_event st3 ?po"
    using assms sr sp by (simp add: begin_trial_def Let_def)
  from start_recording_log[OF sr] obtain e1 where
    l1: "detailed_log st2 = detailed_log ?st1 @ e1"
    and t1: "\<forall>e\<in>set e1. event_type e = audio_recording_start \<and> trial e = n"
    and g1: "trigger_time st2 = trigger_time ?st1"
    and a1: "\<not> audio_available ?st1 \<longrightarrow> \<not> audio_available st2 \<and> rec_calls st2 = rec_calls ?st1"
    and b1: "audio_available st2 \<longrightarrow> audio_available ?st1"
    and c1: "audio_available ?st1 \<and> (\<exists>err. w_rec_start w = RecRaised err) \<longrightarrow> \<not> audio_available st2"
    by blast
  from start_playback_log[OF sp] obtain e2 where
    l2: "detailed_log st3 = detailed_log st2 @ e2"
    and t2: "\<forall>e\<in>set e2. event_type e = audio_playback_start \<and> trial e = n"
    and g2: "trigger_time st3 = trigger_time st2"
    and a2: "audio_available st3 = audio_available st2"
    and r2: "rec_calls st3 = rec_calls st2"
    by blast
  have log: "detailed_log st4 = detailed_log st @ ?ts # (e1 @ e2 @ [?po])"
    unfolding st4 by (simp add: l1 l2)
  have types: "\<forall>e\<in>set (e1 @ e2 @ [?po]).
      event_type e \<in> {audio_recording_start, audio_playback_start, prompt_onset} \<and> trial e = n"
    using t1 t2 by auto
  have trig: "trigger_time st4 = trigger_time st"
    unfolding st4 by (simp add: g1 g2)
  have av: "audio_available st4 = audio_available st2" "rec_calls st4 = rec_calls st2"
    unfolding st4 by (simp_all add: a2 r2)
  have s1: "audio_available ?st1 = audio_available st" "rec_calls ?st1 = rec_calls st"
    by simp_all
  have p1: "\<not> audio_available st \<longrightarrow> \<not> audio_available st4 \<and> rec_calls st4 = rec_calls st"
    using a1 unfolding av s1 .
  have p2: "audio_available st4 \<longrightarrow> audio_available st"
    using b1 unfolding av s1 .
  have p3: "audio_available st \<and> (\<exists>err. w_rec_start w = RecRaised err) \<longrightarrow> \<not> audio_available st4"
    using c1 unfolding av s1 .
  from log types trig p1 p2 p3 show ?thesis by blast
qed

lemma after_window_log:
  assumes "after_window st n w recording pst pet = st'"
  shows "\<exists>evs. detailed_log st' = detailed_log st @ evs
           \<and> (\<forall>e\<in>set evs. event_type e \<in> {audio_recording_end, audio_playback_end, fixation_onset}
                           \<and> trial e = n)
           \<and> count_type audio_playback_end evs \<le> (if pet = None then 1 else 0)
           \<and> trigger_time st' = trigger_time st
           \<and> audio_available st' = audio_available st
           \<and> rec_calls st' = rec_calls st"
proof -
  define st1 where "st1 = (if recording then
                   (case w_save w of
                      Some t \<Rightarrow> log_event st (make_event st audio_recording_end n t (Some 0))
                    | None \<Rightarrow> st)
                 else st)"
  define started where "started = (case pst of None \<Rightarrow> False | Some t \<Rightarrow> t \<noteq> 0)"
  define st2 where "st2 = (if started \<and> pet = None then
                   log_event st1 (make_event st1 audio_playback_end n (w_forced_end w) (Some 0))
                 else st1)"
  have st': "st' = log_event st2 (make_event st2 fixation_onset n (w_fixation_start w) (Some ITI_DURATION))"
    using assms unfolding after_window_def Let_def st1_def started_def st2_def by simp
  obtain e1 where 1: "detailed_log st1 = detailed_log st @ e1"
      "\<forall>e\<in>set e1. event_type e = audio_recording_end \<and> trial e = n"
      "trigger_time st1 = trigger_time st" "audio_available st1 = audio_available st"
      "rec_calls st1 = rec_calls st"
  proof (cases "recording \<and> w_save w \<noteq> None")
    case True
    then obtain t where "w_save w = Some t" by auto
    then have "st1 = log_event st (make_event st audio_recording_end n t (Some 0))"
      using True by (simp add: st1_def)
    then show ?thesis
      by (intro that[of "[make_event st audio_recording_end n t (Some 0)]"]) simp_all
  next
    case False
    then have "st1 = st" by (auto simp: st1_def)
    then show ?thesis by (intro that[of "[]"]) simp_all
  qed
  obtain e2 where 2: "detailed_log st2 = detailed_log st1 @ e2"
      "\<forall>e\<in>set e2. event_type e = audio_playback_end \<and> trial e = n"
      "length e2 \<le> (if pet = None then 1 else 0)"
      "trigger_time st2 = trigger_time st1" "audio_available st2 = audio_available st1"
      "rec_calls st2 = rec_calls st1"
  proof (cases "started \<and> pet = None")
    case True
    then have "st2 = log_event st1 (make_event st1 audio_playback_end n (w_forced_end w) (Some 0))"
      by (simp add: st2_def)
    then show ?thesis using True
      by (intro that[of "[make_event st1 audio_playback_end n (w_forced_end w) (Some 0)]"]) simp_all
  next
    case False
    then have "st2 = st1" by (auto simp: st2_def)
    then show ?thesis by (intro that[of "[]"]) simp_all
  qed
  let ?fx = "make_event st2 fixation_onset n (w_fixation_start w) (Some ITI_DURATION)"
  have c: "count_type audio_playback_end (e1 @ e2 @ [?fx]) \<le> length e2"
    using 1(2) by (auto simp: count_type_def filter_empty_conv intro: le_trans[OF length_filter_le])
  show ?thesis
    using 1 2 c unfolding st'
    by (intro exI[of _ "e1 @ e2 @ [?fx]"]) auto
qed

lemma make_event_cong:
  "trigger_time st' = trigger_time st \<Longrightarrow> make_event st' ty n t d = make_event st ty n t d"
  by (simp add: make_event_def relative_time_def)

lemma end_trial_log:
  assumes "end_trial st n w pos recording = (info, st')"
  shows "detailed_log st'
           = (detailed_log st)[pos := (detailed_log st ! pos)
                                  \<lparr>duration := Some (w_trial_end w - w_trial_start w)\<rparr>]
             @ [make_event st trial_end n (w_trial_end w) (Some 0)]
       \<and> trigger_time st' = trigger_time st
       \<and> audio_available st' = audio_available st
       \<and> rec_calls st' = rec_calls st"
proof -
  let ?st1 = "st\<lparr>detailed_log := (detailed_log st)[pos := (detailed_log st ! pos)
                                  \<lparr>duration := Some (w_trial_end w - w_trial_start w)\<rparr>]\<rparr>"
  have "st' = log_event ?st1 (make_event ?st1 trial_end n (w_trial_end w) (Some 0))"
    using assms by (simp add: end_trial_def Let_def)
  moreover have "make_event ?st1 trial_end n (w_trial_end w) (Some 0)
                   = make_event st trial_end n (w_trial_end w) (Some 0)"
    by (rule make_event_cong) simp
  ultimately show ?thesis by simp
qed

lemma run_trial_log:
  assumes "run_trial st trial_idx w = Some (res, st')"
  shows "\<exists>ts mid fin.
           detailed_log st' = detailed_log st @ ts # mid @ fin
         \<and> event_type ts = trial_start \<and> trial ts = trial_idx + 1
         \<and> onset ts = relative_time st (w_trial_start w)
         \<and> (\<forall>e\<in>set mid. event_type e \<noteq> trial_start \<and> event_type e \<noteq> trial_end
                         \<and> trial e = trial_idx + 1)
         \<and> count_type audio_playback_end mid \<le> 1
         \<and> fin = (case res of None \<Rightarrow> []
                   | Some info \<Rightarrow> [make_event st trial_end (trial_idx + 1) (w_trial_end w) (Some 0)])
         \<and> trigger_time st' = trigger_time st
         \<and> (\<not> audio_available st \<longrightarrow> \<not> audio_available st' \<and> rec_calls st' = rec_calls st)
         \<and> (audio_available st' \<longrightarrow> audio_available st)
         \<and> (audio_available st \<and> (\<exists>err. w_rec_start w = RecRaised err) \<longrightarrow> \<not> audio_available st')"
proof -
  let ?n = "trial_idx + 1"
  let ?ts = "make_event st trial_start ?n (w_trial_start w) None"
  obtain st4 recording ch pst where bt: "begin_trial st ?n w = (st4, recording, ch, pst)"
    by (cases "begin_trial st ?n w") auto
  from begin_trial_log[OF bt] obtain m1 where
    l4: "detailed_log st4 = detailed_log st @ ?ts # m1"
    and t4: "\<forall>e\<in>set m1. event_type e \<in> {audio_recording_start, audio_playback_start, prompt_onset}
                          \<and> trial e = ?n"
    and g4: "trigger_time st4 = trigger_time st"
    and a4: "\<not> audio_available st \<longrightarrow> \<not> audio_available st4 \<and> rec_calls st4 = rec_calls st"
    and b4: "audio_available st4 \<longrightarrow> audio_available st"
    and c4: "audio_available st \<and> (\<exists>err. w_rec_start w = RecRaised err) \<longrightarrow> \<not> audio_available st4"
    by blast
  have c1: "count_type audio_playback_end m1 = 0"
    using t4 by (auto simp: count_type_def filter_empty_conv)
  obtain r where sl: "stimulus_loop (w_stimulus_start w) ch ?n (w_ticks w) st4 False None = Some r"
    using assms bt by (auto simp: run_trial_def Let_def split: option.splits)
  from stimulus_loop_log[OF sl] obtain st5 m2 where
    r: "r = Interrupted st5 \<or> (\<exists>logged' et'. r = Completed st5 logged' et'
             \<and> (et' = None \<longrightarrow> None = (None :: real option) \<and> m2 = []))"
    and l5: "detailed_log st5 = detailed_log st4 @ m2"
    and g5: "trigger_time st5 = trigger_time st4"
    and a5: "audio_available st5 = audio_available st4"
    and r5: "rec_calls st5 = rec_calls st4"
    and t5: "\<forall>e\<in>set m2. event_type e = audio_playback_end \<and> trial e = ?n"
    and n5: "length m2 \<le> (if False then 0 else 1)"
    by blast
  have c2: "count_type audio_playback_end m2 = length m2"
    using t5 by (simp add: count_type_def)
  have t12: "\<forall>e\<in>set (m1 @ m2). event_type e \<noteq> trial_start \<and> event_type e \<noteq> trial_end
                                 \<and> trial e = ?n"
    using t4 t5 by auto
  have avail5: "\<not> audio_available st \<longrightarrow> \<not> audio_available st5 \<and> rec_calls st5 = rec_calls st"
    "audio_available st5 \<longrightarrow> audio_available st"
    "audio_available st \<and> (\<exists>err. w_rec_start w = RecRaised err) \<longrightarrow> \<not> audio_available st5"
    using a4 b4 c4 unfolding a5 r5 by blast+
  show ?thesis
  proof (cases "r = Interrupted st5")
    case True
    then have res: "res = None" "st' = st5"
      using assms bt sl by (auto simp: run_trial_def Let_def)
    have "detailed_log st' = detailed_log st @ ?ts # (m1 @ m2) @ []"
      unfolding res by (simp add: l5 l4)
    moreover have "count_type audio_playback_end (m1 @ m2) \<le> 1"
      using c1 c2 n5 by (simp add: count_type_def)
    moreover have "trigger_time st' = trigger_time st" unfolding res by (simp add: g5 g4)
    moreover have "[] = (case res of None \<Rightarrow> []
                   | Some info \<Rightarrow> [make_event st trial_end ?n (w_trial_end w) (Some 0)])"
      unfolding res by simp
    moreover have "event_type ?ts = trial_start" "trial ?ts = ?n"
      "onset ?ts = relative_time st (w_trial_start w)" by simp_all
    moreover note t12 avail5[folded res(2)]
    ultimately show ?thesis by blast
  next
    case False
    then obtain logged' et' where rc: "r = Completed st5 logged' et'"
      and et: "et' = None \<longrightarrow> m2 = []"
      using r by blast
    define st6 where "st6 = after_window st5 ?n w recording pst et'"
    from after_window_log[OF st6_def[symmetric]] obtain m3 where
      l6: "detailed_log st6 = detailed_log st5 @ m3"
      and t6: "\<forall>e\<in>set m3. event_type e \<in> {audio_recording_end, audio_playback_end, fixation_onset}
                            \<and> trial e = ?n"
      and c3: "count_type audio_playback_end m3 \<le> (if et' = None then 1 else 0)"
      and g6: "trigger_time st6 = trigger_time st5"
      and a6: "audio_available st6 = audio_available st5"
      and r6: "rec_calls st6 = rec_calls st5"
      by blast
    let ?mid = "m1 @ m2 @ m3"
    have t123: "\<forall>e\<in>set ?mid. event_type e \<noteq> trial_start \<and> event_type e \<noteq> trial_end
                                \<and> trial e = ?n"
      using t12 t6 by auto
    have cnt: "count_type audio_playback_end ?mid \<le> 1"
    proof (cases "et' = None")
      case True
      then have "m2 = []" using et by simp
      then show ?thesis using c1 c3 True by (simp add: count_type_def)
    next
      case False
      then have "count_type audio_playback_end m3 = 0" using c3 by auto
      then show ?thesis using c1 c2 n5 by (simp add: count_type_def)
    qed
    have l6': "detailed_log st6 = detailed_log st @ ?ts # ?mid"
      by (simp add: l6 l5 l4)
    have g6': "trigger_time st6 = trigger_time st" by (simp add: g6 g5 g4)
    have avail6: "\<not> audio_available st \<longrightarrow> \<not> audio_available st6 \<and> rec_calls st6 = rec_calls st"
      "audio_available st6 \<longrightarrow> audio_available st"
      "audio_available st \<and> (\<exists>err. w_rec_start w = RecRaised err) \<longrightarrow> \<not> audio_available st6"
      using avail5 unfolding a6 r6 by blast+
    obtain fx where fx: "show_fixation (w_fix_start_wait w) ITI_DURATION (w_fix_ticks w) = Some fx"
      using assms bt sl rc
      by (auto simp: run_trial_def Let_def st6_def split: option.splits)
    show ?thesis
    proof (cases fx)
      case False
      then have res: "res = None" "st' = st6"
        using assms bt sl rc fx by (auto simp: run_trial_def Let_def st6_def)
      have "detailed_log st' = detailed_log st @ ?ts # ?mid @ []"
        unfolding res using l6' by simp
      moreover have "[] = (case res of None \<Rightarrow> []
                   | Some info \<Rightarrow> [make_event st trial_end ?n (w_trial_end w) (Some 0)])"
        unfolding res by simp
      moreover have "event_type ?ts = trial_start" "trial ?ts = ?n"
        "onset ?ts = relative_time st (w_trial_start w)" by simp_all
      moreover note t123 cnt g6'[folded res(2)] avail6[folded res(2)]
      ultimately show ?thesis by blast
    next
      case True
      obtain info st7 where e: "end_trial st6 ?n w (length (detailed_log st)) recording = (info, st7)"
        by (cases "end_trial st6 ?n w (length (detailed_log st)) recording")
      have res: "res = Some info" "st' = st7"
        using assms bt sl rc fx True e by (auto simp: run_trial_def Let_def st6_def)
      let ?d = "Some (w_trial_end w - w_trial_start w)"
      let ?te = "make_event st6 trial_end ?n (w_trial_end w) (Some 0)"
      from end_trial_log[OF e] have
        l7: "detailed_log st7 = (detailed_log st6)[length (detailed_log st)
                := (detailed_log st6 ! length (detailed_log st))\<lparr>duration := ?d\<rparr>] @ [?te]"
        and g7: "trigger_time st7 = trigger_time st6"
        and a7: "audio_available st7 = audio_available st6"
        and r7: "rec_calls st7 = rec_calls st6"
        by blast+
      have te: "?te = make_event st trial_end ?n (w_trial_end w) (Some 0)"
        by (rule make_event_cong) (rule g6')
      have upd: "(detailed_log st6)[length (detailed_log st)
                := (detailed_log st6 ! length (detailed_log st))\<lparr>duration := ?d\<rparr>]
              = detailed_log st @ (?ts\<lparr>duration := ?d\<rparr>) # ?mid"
        unfolding l6' by (simp add: list_update_append nth_append)
      have log: "detailed_log st' = detailed_log st @ (?ts\<lparr>duration := ?d\<rparr>) # ?mid
                   @ [make_event st trial_end ?n (w_trial_end w) (Some 0)]"
        unfolding res l7 upd te by simp
      have tsx: "event_type (?ts\<lparr>duration := ?d\<rparr>) = trial_start"
        "trial (?ts\<lparr>duration := ?d\<rparr>) = ?n"
        "onset (?ts\<lparr>duration := ?d\<rparr>) = relative_time st (w_trial_start w)"
        by simp_all
      have g7': "trigger_time st' = trigger_time st" unfolding res by (simp add: g7 g6')
      have avail7: "\<not> audio_available st \<longrightarrow> \<not> audio_available st' \<and> rec_calls st' = rec_calls st"
        "audio_available st' \<longrightarrow> audio_available st"
        "audio_available st \<and> (\<exists>err. w_rec_start w = RecRaised err) \<longrightarrow> \<not> audio_available st'"
        using avail6 unfolding res a7 r7 by blast+
      have fin: "[make_event st trial_end ?n (w_trial_end w) (Some 0)]
                   = (case res of None \<Rightarrow> []
                      | Some info \<Rightarrow> [make_event st trial_end ?n (w_trial_end w) (Some 0)])"
        unfolding res by simp
      from log tsx t123 cnt fin g7' avail7 show ?thesis by blast
    qed
  qed
qed

subsection \<open>A trial returns once the clock has passed its windows\<close>

text \<open>
  Each polling loop of a trial ends at the first iteration that finds its window elapsed
  or a quit or escape event: a script that holds such an iteration for each loop is long
  enough for \<^verbatim>\<open>run_trial\<close> to return, whatever the state of the task.
\<close>

lemma stimulus_loop_returns:
  assumes "\<exists>tk\<in>set tks. \<not> (tick_now tk - s < FIXED_STIMULUS_TIME) \<or> abort_requested (tick_events tk)"
  shows "\<exists>r. stimulus_loop s pc n tks st logged et = Some r"
  using assms
proof (induction tks arbitrary: st logged et pc)
  case Nil
  then show ?case by simp
next
  case (Cons tk tks)
  show ?case
  proof (cases "\<not> (tick_now tk - s < FIXED_STIMULUS_TIME) \<or> abort_requested (tick_events tk)")
    case True
    then show ?thesis by auto
  next
    case False
    then have "\<exists>tk\<in>set tks. \<not> (tick_now tk - s < FIXED_STIMULUS_TIME)
                 \<or> abort_requested (tick_events tk)"
      using Cons.prems by auto
    from Cons.IH[OF this] show ?thesis using False by simp
  qed
qed

lemma show_fixation_returns:
  assumes "\<exists>(now, evs)\<in>set fts. \<not> (now - sw < dur) \<or> abort_requested evs"
  shows "\<exists>b. show_fixation sw dur fts = Some b"
  using assms
proof (induction fts)
  case Nil
  then show ?case by simp
next
  case (Cons ft fts)
  obtain now evs where ft: "ft = (now, evs)" by (cases ft)
  show ?case
  proof (cases "\<not> (now - sw < dur) \<or> abort_requested evs")
    case True
    then show ?thesis unfolding ft by auto
  next
    case False
    then have "\<exists>(now, evs)\<in>set fts. \<not> (now - sw < dur) \<or> abort_requested evs"
      using Cons.prems unfolding ft by auto
    from Cons.IH[OF this] show ?thesis using False unfolding ft by simp
  qed
qed

lemma run_trial_returns:
  assumes win: "\<exists>tk\<in>set (w_ticks w). \<not> (tick_now tk - w_stimulus_start w < FIXED_STIMULUS_TIME)
                   \<or> abort_requested (tick_events tk)"
    and iti: "\<exists>(now, evs)\<in>set (w_fix_ticks w). \<not> (now - w_fix_start_wait w < ITI_DURATION)
                   \<or> abort_requested evs"
  shows "\<exists>res st'. run_trial st trial_idx w = Some (res, st')"
proof -
  obtain st4 recording playback_channel playback_start_time where
    bt: "begin_trial st (trial_idx + 1) w = (st4, recording, playback_channel, playback_start_time)"
    by (metis prod_cases4)
  obtain r where loop: "stimulus_loop (w_stimulus_start w) playback_channel (trial_idx + 1)
                          (w_ticks w) st4 False None = Some r"
    using stimulus_loop_returns[OF win] by blast
  obtain b where fx: "show_fixation (w_fix_start_wait w) ITI_DURATION (w_fix_ticks w) = Some b"
    using show_fixation_returns[OF iti] by blast
  show ?thesis
    using loop fx unfolding run_trial_def Let_def bt
    by (cases r; cases b) (auto split: prod.splits)
qed

subsection \<open>Evaluating the example sessions\<close>

lemmas run_trial_eval =
  run_trial_def begin_trial_def start_recording_def start_playback_def after_window_def
  end_trial_def abort_requested_def relative_time_def FIXED_STIMULUS_TIME_def
  ITI_DURATION_def Let_def

lemma polled_run:
  "\<exists>info st'. run_trial demo_task 0 polled_world = Some (Some info, st')
     \<and> map event_type (detailed_log st') =
         [trial_start, audio_recording_start, audio_playback_start, prompt_onset,
          audio_playback_end, audio_recording_end, fixation_onset, trial_end]
     \<and> map onset (detailed_log st') = [10, 10, 10, 10, 12, 17, 17, 19]"
  by (simp add: run_trial_eval demo_task_def polled_world_def)

lemma forced_run:
  "\<exists>info st'. run_trial demo_task 0 forced_world = Some (Some info, st')
     \<and> map event_type (detailed_log st') =
         [trial_start, audio_recording_start, audio_playback_start, prompt_onset,
          audio_recording_end, audio_playback_end, fixation_onset, trial_end]"
  by (simp add: run_trial_eval demo_task_def polled_world_def forced_world_def)

lemma failing_run:
  "\<exists>info st'. run_trial demo_task 0 failing_world = Some (Some info, st')
     \<and> rec_calls st' = [1] \<and> audio_error st' = Some ''PortAudioError''
     \<and> playback_available st'
     \<and> map event_type (detailed_log st') =
         [trial_start, audio_playback_start, prompt_onset,
          audio_playback_end, fixation_onset, trial_end]"
  by (simp add: run_trial_eval log_event_def demo_task_def polled_world_def failing_world_def)

lemma polled_after:
  assumes "\<not> audio_available st" and "playback_available st"
  shows "\<exists>info st'. run_trial st j polled_world = Some (Some info, st')"
  using assms by (simp add: run_trial_eval polled_world_def)

subsection \<open>C6: at most one end of playback per trial\<close>

text \<open>
  Claim C6: every run of \<^verbatim>\<open>run_trial\<close> that returns, completed or interrupted, has only
  appended to the detailed log, every appended entry carries the number of this trial,
  and at most one of them is an \<^verbatim>\<open>audio_playback_end\<close>: the end of playback found by
  polling the channel in the stimulus window and the forced one after the window exclude
  each other.
\<close>

theorem at_most_one_playback_end:
  assumes "run_trial st trial_idx w = Some (res, st')"
  shows "\<exists>evs. detailed_log st' = detailed_log st @ evs
           \<and> (\<forall>e\<in>set evs. trial e = trial_idx + 1)
           \<and> count_type audio_playback_end evs \<le> 1"
proof -
  from run_trial_log[OF assms] obtain ts mid fin where
    log: "detailed_log st' = detailed_log st @ ts # mid @ fin"
    and ts: "event_type ts = trial_start" "trial ts = trial_idx + 1"
    and mid: "\<forall>e\<in>set mid. event_type e \<noteq> trial_start \<and> event_type e \<noteq> trial_end
                           \<and> trial e = trial_idx + 1"
    and cnt: "count_type audio_playback_end mid \<le> 1"
    and fin: "fin = (case res of None \<Rightarrow> []
                    | Some info \<Rightarrow> [make_event st trial_end (trial_idx + 1) (w_trial_end w) (Some 0)])"
    by blast
  have f1: "\<forall>e\<in>set fin. trial e = trial_idx + 1"
    and f2: "count_type audio_playback_end fin = 0"
    unfolding fin by (auto simp: count_type_def split: option.splits)
  have "\<forall>e\<in>set (ts # mid @ fin). trial e = trial_idx + 1"
    using ts mid f1 by auto
  moreover have "count_type audio_playback_end (ts # mid @ fin) \<le> 1"
    using ts cnt f2 by (simp add: count_type_Cons count_type_append)
  ultimately show ?thesis using log by blast
qed

text \<open>
  The theorem at the session in which the channel is still busy when the window ends (the
  one \<^verbatim>\<open>audio_playback_end\<close> is the forced one, after the recording was saved), and at
  the session in which the channel is found idle inside the window (the one entry is the
  polled one, and none is forced).
\<close>

theorem at_most_one_playback_end_witness:
  "(\<exists>res st'. run_trial demo_task 0 forced_world = Some (res, st')
      \<and> (\<exists>evs. detailed_log st' = detailed_log demo_task @ evs
             \<and> list_all (\<lambda>e. trial e = 0 + 1) evs
             \<and> count_type audio_playback_end evs \<le> 1
             \<and> map event_type evs =
                 [trial_start, audio_recording_start, audio_playback_start, prompt_onset,
                  audio_recording_end, audio_playback_end, fixation_onset, trial_end]))
   \<and> (\<exists>res st'. run_trial demo_task 0 polled_world = Some (res, st')
      \<and> (\<exists>evs. detailed_log st' = detailed_log demo_task @ evs
             \<and> list_all (\<lambda>e. trial e = 0 + 1) evs
             \<and> count_type audio_playback_end evs \<le> 1
             \<and> map event_type evs =
                 [trial_start, audio_recording_start, audio_playback_start, prompt_onset,
                  audio_playback_end, audio_recording_end, fixation_onset, trial_end]))"
proof (rule conjI)
  from forced_run obtain info st' where
    run: "run_trial demo_task 0 forced_world = Some (Some info, st')"
    and types: "map event_type (detailed_log st') =
         [trial_start, audio_recording_start, audio_playback_start, prompt_onset,
          audio_recording_end, audio_playback_end, fixation_onset, trial_end]"
    by auto
  from at_most_one_playback_end[OF run] obtain evs where
    evs: "detailed_log st' = detailed_log demo_task @ evs"
      "\<forall>e\<in>set evs. trial e = 0 + 1" "count_type audio_playback_end evs \<le> 1"
    by blast
  have "detailed_log st' = evs" using evs(1) by (simp add: demo_task_def)
  then have types': "map event_type evs =
         [trial_start, audio_recording_start, audio_playback_start, prompt_onset,
          audio_recording_end, audio_playback_end, fixation_onset, trial_end]"
    using types by simp
  have la: "list_all (\<lambda>e. trial e = 0 + 1) evs" using evs(2) by (simp add: list_all_iff)
  show "\<exists>res st'. run_trial demo_task 0 forced_world = Some (res, st')
      \<and> (\<exists>evs. detailed_log st' = detailed_log demo_task @ evs
             \<and> list_all (\<lambda>e. trial e = 0 + 1) evs
             \<and> count_type audio_playback_end evs \<le> 1
             \<and> map event_type evs =
                 [trial_start, audio_recording_start, audio_playback_start, prompt_onset,
                  audio_recording_end, audio_playback_end, fixation_onset, trial_end])"
    by (intro exI conjI) (rule run evs(1) la evs(3) types')+
next
  from polled_run obtain info st' where
    run: "run_trial demo_task 0 polled_world = Some (Some info, st')"
    and types: "map event_type (detailed_log st') =
         [trial_start, audio_recording_start, audio_playback_start, prompt_onset,
          audio_playback_end, audio_recording_end, fixation_onset, trial_end]"
    by auto
  from at_most_one_playback_end[OF run] obtain evs where
    evs: "detailed_log st' = detailed_log demo_task @ evs"
      "\<forall>e\<in>set evs. trial e = 0 + 1" "count_type audio_playback_end evs \<le> 1"
    by blast
  have "detailed_log st' = evs" using evs(1) by (simp add: demo_task_def)
  then have types': "map event_type evs =
         [trial_start, audio_recording_start, audio_playback_start, prompt_onset,
          audio_playback_end, audio_recording_end, fixation_onset, trial_end]"
    using types by simp
  have la: "list_all (\<lambda>e. trial e = 0 + 1) evs" using evs(2) by (simp add: list_all_iff)
  show "\<exists>res st'. run_trial demo_task 0 polled_world = Some (res, st')
      \<and> (\<exists>evs. detailed_log st' = detailed_log demo_task @ evs
             \<and> list_all (\<lambda>e. trial e = 0 + 1) evs
             \<and> count_type audio_playback_end evs \<le> 1
             \<and> map event_type evs =
                 [trial_start, audio_recording_start, audio_playback_start, prompt_onset,
                  audio_playback_end, audio_recording_end, fixation_onset, trial_end])"
    by (intro exI conjI) (rule run evs(1) la evs(3) types')+
qed

subsection \<open>C8: the end of a trial is not before its start\<close>

text \<open>
  Claim C8: a completed trial has appended exactly one \<^verbatim>\<open>trial_start\<close> and one
  \<^verbatim>\<open>trial_end\<close> entry for its number, the first and the last of its entries. When the
  clock reading taken for the end is not before the one taken for the start, the onset of
  \<^verbatim>\<open>trial_end\<close> is at least the onset of \<^verbatim>\<open>trial_start\<close>: both are the clock reading minus
  the same trigger time, or both are 0 when no trigger time is set.
\<close>

theorem trial_end_not_before_trial_start:
  assumes run: "run_trial st trial_idx w = Some (Some info, st')"
    and clock: "w_trial_start w \<le> w_trial_end w"
  shows "\<exists>ts mid te.
           detailed_log st' = detailed_log st @ ts # mid @ [te]
         \<and> event_type ts = trial_start \<and> trial ts = trial_idx + 1
         \<and> event_type te = trial_end \<and> trial te = trial_idx + 1
         \<and> (\<forall>e\<in>set mid. event_type e \<noteq> trial_start \<and> event_type e \<noteq> trial_end)
         \<and> onset ts = relative_time st (w_trial_start w)
         \<and> onset te = relative_time st (w_trial_end w)
         \<and> onset ts \<le> onset te"
proof -
  let ?te = "make_event st trial_end (trial_idx + 1) (w_trial_end w) (Some 0)"
  from run_trial_log[OF run] obtain ts mid fin where
    log: "detailed_log st' = detailed_log st @ ts # mid @ fin"
    and ts: "event_type ts = trial_start" "trial ts = trial_idx + 1"
      "onset ts = relative_time st (w_trial_start w)"
    and mid: "\<forall>e\<in>set mid. event_type e \<noteq> trial_start \<and> event_type e \<noteq> trial_end
                           \<and> trial e = trial_idx + 1"
    and fin: "fin = (case Some info of None \<Rightarrow> [] | Some info \<Rightarrow> [?te])"
    by blast
  have log': "detailed_log st' = detailed_log st @ ts # mid @ [?te]"
    using log fin by simp
  have te: "event_type ?te = trial_end" "trial ?te = trial_idx + 1"
    "onset ?te = relative_time st (w_trial_end w)" by simp_all
  have le: "onset ts \<le> onset ?te"
    unfolding ts(3) te(3) by (rule relative_time_mono[OF clock])
  have mid': "\<forall>e\<in>set mid. event_type e \<noteq> trial_start \<and> event_type e \<noteq> trial_end"
    using mid by blast
  from log' ts te mid' le show ?thesis by blast
qed

text \<open>The theorem at the example session: the trial starts at 10 s and ends at 19 s.\<close>

theorem trial_end_not_before_trial_start_witness:
  "(\<exists>info st'. run_trial demo_task 0 polled_world = Some (Some info, st')
      \<and> w_trial_start polled_world \<le> w_trial_end polled_world
      \<and> (\<exists>ts mid te.
            detailed_log st' = detailed_log demo_task @ ts # mid @ [te]
          \<and> event_type ts = trial_start \<and> trial ts = 0 + 1
          \<and> event_type te = trial_end \<and> trial te = 0 + 1
          \<and> list_all (\<lambda>e. event_type e \<noteq> trial_start \<and> event_type e \<noteq> trial_end) mid
          \<and> onset ts = 10 \<and> onset te = 19
          \<and> onset ts \<le> onset te))"
proof -
  from polled_run obtain info st' where
    run: "run_trial demo_task 0 polled_world = Some (Some info, st')"
    by auto
  have clock: "w_trial_start polled_world \<le> w_trial_end polled_world"
    by (simp add: polled_world_def)
  from trial_end_not_before_trial_start[OF run clock] obtain ts mid te where
    log: "detailed_log st' = detailed_log demo_task @ ts # mid @ [te]"
    and ty: "event_type ts = trial_start" "trial ts = 0 + 1"
      "event_type te = trial_end" "trial te = 0 + 1"
    and mid: "\<forall>e\<in>set mid. event_type e \<noteq> trial_start \<and> event_type e \<noteq> trial_end"
    and ons: "onset ts = relative_time demo_task (w_trial_start polled_world)"
      "onset te = relative_time demo_task (w_trial_end polled_world)"
    and le: "onset ts \<le> onset te"
    by blast
  have o1: "onset ts = 10" and o2: "onset te = 19"
    unfolding ons by (simp_all add: relative_time_def demo_task_def polled_world_def)
  have m: "list_all (\<lambda>e. event_type e \<noteq> trial_start \<and> event_type e \<noteq> trial_end) mid"
    using mid by (simp add: list_all_iff)
  show ?thesis by (intro exI conjI) (rule run clock log ty m o1 o2 le)+
qed

subsection \<open>C7: a failed start of the recording is not retried\<close>

lemma run_trials_no_audio:
  "\<not> audio_available st \<Longrightarrow> run_trials st j ws = Some (infos, intr, st2) \<Longrightarrow>
     \<not> audio_available st2 \<and> rec_calls st2 = rec_calls st"
proof (induction ws arbitrary: st j infos intr)
  case Nil
  then show ?case by simp
next
  case (Cons w ws)
  from Cons.prems(2) obtain res st1 where rt: "run_trial st j w = Some (res, st1)"
    by (auto split: option.splits)
  from run_trial_log[OF rt] Cons.prems(1)
  have keep: "\<not> audio_available st1" "rec_calls st1 = rec_calls st" by blast+
  show ?case
  proof (cases res)
    case None
    then have "st2 = st1" using Cons.prems(2) rt by simp
    then show ?thesis using keep by simp
  next
    case (Some info)
    then obtain infos' where "run_trials st1 (Suc j) ws = Some (infos', intr, st2)"
      using Cons.prems(2) rt by (auto split: option.splits)
    from Cons.IH[OF keep(1) this] show ?thesis using keep(2) by simp
  qed
qed

text \<open>
  Claim C7: when \<^verbatim>\<open>sd.rec\<close> raises in a trial, that trial leaves \<^verbatim>\<open>audio_available\<close> false,
  and every later stretch of the trial loop, whatever its trials meet, ends with the flag
  still false and without another call of \<^verbatim>\<open>sd.rec\<close>. (\<^verbatim>\<open>initialize_audio\<close>, the only
  code that sets the flag to true, is called once, before the loop.)
\<close>

theorem recording_failure_is_sticky:
  assumes run: "run_trial st trial_idx w = Some (res, st1)"
    and avail: "audio_available st"
    and fail: "w_rec_start w = RecRaised err"
  shows "\<not> audio_available st1
       \<and> (\<forall>j ws infos intr st2.
             run_trials st1 j ws = Some (infos, intr, st2) \<longrightarrow>
               \<not> audio_available st2 \<and> rec_calls st2 = rec_calls st1)"
proof -
  have off: "\<not> audio_available st1"
    using run_trial_log[OF run] avail fail by blast
  then show ?thesis using run_trials_no_audio by blast
qed

text \<open>
  The theorem at a session whose first trial fails to start the recording: the second
  trial completes without recording, and \<^verbatim>\<open>sd.rec\<close> was called in trial 1 only.
\<close>

theorem recording_failure_is_sticky_witness:
  "(\<exists>res st1. run_trial demo_task 0 failing_world = Some (res, st1)
      \<and> audio_available demo_task
      \<and> w_rec_start failing_world = RecRaised ''PortAudioError''
      \<and> \<not> audio_available st1
      \<and> rec_calls st1 = [1]
      \<and> (\<exists>infos intr st2.
            run_trials st1 1 [polled_world] = Some (infos, intr, st2)
          \<and> length infos = 1
          \<and> \<not> audio_available st2 \<and> rec_calls st2 = [1]))"
proof -
  from failing_run obtain info st1 where
    run: "run_trial demo_task 0 failing_world = Some (Some info, st1)"
    and calls: "rec_calls st1 = [1]"
    and play: "playback_available st1"
    by auto
  have avail: "audio_available demo_task" by (simp add: demo_task_def)
  have fail: "w_rec_start failing_world = RecRaised ''PortAudioError''"
    by (simp add: failing_world_def polled_world_def)
  note sticky = recording_failure_is_sticky[OF run avail fail]
  have off: "\<not> audio_available st1" using sticky by blast
  from polled_after[OF off play, of 1] obtain info2 st2 where
    "run_trial st1 1 polled_world = Some (Some info2, st2)" by auto
  then have rest: "run_trials st1 1 [polled_world] = Some ([info2], False, st2)" by simp
  have later: "\<not> audio_available st2 \<and> rec_calls st2 = rec_calls st1"
    using sticky rest by blast
  have len: "length [info2] = 1" by simp
  have later': "\<not> audio_available st2" "rec_calls st2 = [1]"
    using later calls by simp_all
  show ?thesis by (intro exI conjI) (rule run avail fail off calls rest len later')+
qed

subsection \<open>C3: the saved log is sorted by onset\<close>

lemma onset_add_columns [simp]: "onset (add_columns pid intr dir e) = onset e"
  by (simp add: add_columns_def)











end
